theory Spec2Isabelle
  imports Main "HOL-Library.Code_Target_Nat"
begin

section \<open>The memory model\<close>

text \<open>
  The source (\<^verbatim>\<open>vector.h\<close>) is a class template \<^verbatim>\<open>Vector<T>\<close> built on a raw-memory
  holder \<^verbatim>\<open>RawMemory<T>\<close>.  The model keeps an explicit store:
  \<^item> a heap of raw blocks, as returned by \<^verbatim>\<open>operator new\<close>; a block is a list of slots and a
    slot is either uninitialised (\<open>None\<close>) or holds a live object (\<open>Some x\<close>);
  \<^item> a store of \<^verbatim>\<open>Vector\<close> objects, so that \<^verbatim>\<open>this\<close> and a reference argument may be the
    same object;
  \<^item> a trace of the element operations that were invoked (constructors, assignments,
    destructors of \<^verbatim>\<open>T\<close>), in the order of their invocation.
  An address is an index into the heap, an object identity an index into the object store.
  A \<^verbatim>\<open>size_t\<close> is a \<open>nat\<close> below \<open>2^64\<close>.  The one product of the source that can leave
  this range for arguments a caller can pass is the byte count \<^verbatim>\<open>n * sizeof(T)\<close> of
  \<^verbatim>\<open>Allocate\<close>, which is reduced modulo \<open>2^64\<close> below.  \<^verbatim>\<open>size_ * 2\<close> is computed for a size
  that is the number of live elements: objects of a size above \<^verbatim>\<open>PTRDIFF_MAX\<close> do not
  exist, so there are less than \<open>2^63\<close> of them and the product does not wrap.
\<close>

datatype error = AllocationFailure | ElementOperationFailure

datatype event = ArgsCtor | CopyCtor | MoveCtor | CopyAssign | MoveAssign | Dtor

type_synonym addr = nat

type_synonym 'a block = "'a option list"

text \<open>A \<^verbatim>\<open>T*\<close>: the block it points into (\<open>None\<close> for a pointer derived from \<^verbatim>\<open>nullptr\<close>) and
  the offset in slots.\<close>

type_synonym ptr = "addr option \<times> nat"

text \<open>The members \<^verbatim>\<open>buffer_\<close>, \<^verbatim>\<open>capacity_\<close>, \<^verbatim>\<open>data_\<close> and \<^verbatim>\<open>size_\<close> of the source are the fields
  \<open>buffer_m\<close>, \<open>capacity_m\<close>, \<open>data_m\<close> and \<open>size_m\<close> (a name cannot end with an underscore).\<close>

record RawMemory =
  buffer_m :: "addr option"
  capacity_m :: nat

record Vector =
  data_m :: RawMemory
  size_m :: nat

record 'a world =
  heap :: "'a block option list"
  free_slots :: nat
  objs :: "Vector option list"
  trace :: "event list"

text \<open>
  An operation returns normally with a result, or leaves by an exception (the world is the
  one the caller sees when it catches), or has undefined behaviour (a violated contract:
  an access outside a block, to a slot that holds no object, or to an object that does not
  exist).
\<close>

datatype ('r, 'a) outcome = Normal 'r "'a world" | Raised error "'a world" | Undefined

definition bind :: "('r, 'a) outcome \<Rightarrow> ('r \<Rightarrow> 'a world \<Rightarrow> ('s, 'a) outcome) \<Rightarrow> ('s, 'a) outcome" where
  "bind m f = (case m of Normal r w \<Rightarrow> f r w | Raised e w \<Rightarrow> Raised e w | Undefined \<Rightarrow> Undefined)"

text \<open>Stack unwinding: when \<open>m\<close> leaves by an exception, the destructor \<open>d\<close> of a local
  object runs before the exception reaches the caller.\<close>

definition unwind :: "('r, 'a) outcome \<Rightarrow> ('a world \<Rightarrow> (unit, 'a) outcome) \<Rightarrow> ('r, 'a) outcome" where
  "unwind m d = (case m of
       Raised e w \<Rightarrow> (case d w of Normal _ w' \<Rightarrow> Raised e w' | _ \<Rightarrow> Undefined)
     | r \<Rightarrow> r)"

subsection \<open>The element type\<close>

text \<open>
  \<^verbatim>\<open>T\<close> is the template parameter.  The model takes it as a record: \<^verbatim>\<open>sizeof(T)\<close>, the
  four type traits the source queries with \<^verbatim>\<open>if constexpr\<close>, which sources make each
  operation of \<^verbatim>\<open>T\<close> throw, and the value a moved-from object is left with.  A copy yields an object equal to
  its source; a move yields the source's value and leaves \<open>moved_from\<close> of it behind.
\<close>

record 'a elem_type =
  sizeof_T :: nat
  is_nothrow_move_constructible :: bool
  is_copy_constructible :: bool
  is_nothrow_move_assignable :: bool
  is_copy_assignable :: bool
  copy_throws :: "'a \<Rightarrow> bool"
  move_throws :: "'a \<Rightarrow> bool"
  copy_assign_throws :: "'a \<Rightarrow> bool"
  move_assign_throws :: "'a \<Rightarrow> bool"
  moved_from :: "'a \<Rightarrow> 'a"

text \<open>
  The arguments of a constructor call \<^verbatim>\<open>T(std::forward<Args>(args)...)\<close>:
  \<^item> arbitrary arguments: the value the constructor builds from them, or \<open>None\<close> when it
    throws;
  \<^item> a \<^verbatim>\<open>const T&\<close>, for the copy constructor.  In every function of the source that takes
    one, the copy constructor reads the object referred to before any slot is written, and
    does not change it: the argument is the value that is read;
  \<^item> a \<^verbatim>\<open>T&&\<close>, for the move constructor: the slot of the object referred to, which the
    constructor leaves moved-from.  It may be a slot of the vector itself, as in
    \<^verbatim>\<open>v.PushBack(std::move(v[0]))\<close>.
\<close>

datatype 'a ctor_args = Args "'a option" | CopyOf 'a | MoveOf ptr

subsection \<open>Slots\<close>

definition get_block :: "'a world \<Rightarrow> addr \<Rightarrow> 'a block option" where
  "get_block w a = (if a < length (heap w) then heap w ! a else None)"

text \<open>The state of the slot a pointer designates: \<open>None\<close> when the pointer designates no
  slot of an allocated block, \<open>Some None\<close> for raw memory, \<open>Some (Some x)\<close> for a live \<open>x\<close>.\<close>

definition slot :: "'a world \<Rightarrow> ptr \<Rightarrow> 'a option option" where
  "slot w p = (case fst p of
       None \<Rightarrow> None
     | Some a \<Rightarrow> (case get_block w a of
           None \<Rightarrow> None
         | Some blk \<Rightarrow> if snd p < length blk then Some (blk ! snd p) else None))"

definition set_slot :: "ptr \<Rightarrow> 'a option \<Rightarrow> 'a world \<Rightarrow> 'a world" where
  "set_slot p s w = (case fst p of
       None \<Rightarrow> w
     | Some a \<Rightarrow> (case get_block w a of
           None \<Rightarrow> w
         | Some blk \<Rightarrow> w\<lparr>heap := (heap w)[a := Some (blk[snd p := s])]\<rparr>))"

definition log :: "event \<Rightarrow> 'a world \<Rightarrow> 'a world" where
  "log e w = w\<lparr>trace := trace w @ [e]\<rparr>"

definition ptr_add :: "ptr \<Rightarrow> nat \<Rightarrow> ptr" where
  "ptr_add p k = (fst p, snd p + k)"

subsection \<open>Operations of \<^verbatim>\<open>T\<close> on slots\<close>

text \<open>Placement new at \<open>p\<close> by the constructor \<open>ev\<close>, which throws (\<open>None\<close>) or builds \<open>x\<close>.\<close>

definition place :: "ptr \<Rightarrow> event \<Rightarrow> 'a option \<Rightarrow> 'a world \<Rightarrow> (unit, 'a) outcome" where
  "place p ev r w = (case slot w p of
       None \<Rightarrow> Undefined
     | Some _ \<Rightarrow> (case r of
           None \<Rightarrow> Raised ElementOperationFailure (log ev w)
         | Some x \<Rightarrow> Normal () (set_slot p (Some x) (log ev w))))"

text \<open>\<^verbatim>\<open>new (dst) T(*src)\<close> and \<^verbatim>\<open>new (dst) T(std::move(*src))\<close> for a source in a block.\<close>

definition copy_construct_at :: "'a elem_type \<Rightarrow> ptr \<Rightarrow> ptr \<Rightarrow> 'a world \<Rightarrow> (unit, 'a) outcome" where
  "copy_construct_at T dst src w = (case slot w src of
       Some (Some x) \<Rightarrow> place dst CopyCtor (if copy_throws T x then None else Some x) w
     | _ \<Rightarrow> Undefined)"

definition move_construct_at :: "'a elem_type \<Rightarrow> ptr \<Rightarrow> ptr \<Rightarrow> 'a world \<Rightarrow> (unit, 'a) outcome" where
  "move_construct_at T dst src w = (case slot w src of
       Some (Some x) \<Rightarrow> bind (place dst MoveCtor (if move_throws T x then None else Some x) w)
           (\<lambda>_ w'. Normal () (set_slot src (Some (moved_from T x)) w'))
     | _ \<Rightarrow> Undefined)"

text \<open>Placement new with forwarded arguments: \<^verbatim>\<open>new (p) T(std::forward<Args>(args)...)\<close>.\<close>

fun construct_at :: "'a elem_type \<Rightarrow> ptr \<Rightarrow> 'a ctor_args \<Rightarrow> 'a world \<Rightarrow> (unit, 'a) outcome" where
  "construct_at T p (Args r) w = place p ArgsCtor r w"
| "construct_at T p (CopyOf x) w = place p CopyCtor (if copy_throws T x then None else Some x) w"
| "construct_at T p (MoveOf src) w = move_construct_at T p src w"

text \<open>\<^verbatim>\<open>*dst = *src\<close> and \<^verbatim>\<open>*dst = std::move(*src)\<close>: both slots hold objects.\<close>

definition copy_assign_at :: "'a elem_type \<Rightarrow> ptr \<Rightarrow> ptr \<Rightarrow> 'a world \<Rightarrow> (unit, 'a) outcome" where
  "copy_assign_at T dst src w = (case (slot w dst, slot w src) of
       (Some (Some _), Some (Some x)) \<Rightarrow>
         if copy_assign_throws T x then Raised ElementOperationFailure (log CopyAssign w)
         else Normal () (set_slot dst (Some x) (log CopyAssign w))
     | _ \<Rightarrow> Undefined)"

definition move_assign_at :: "'a elem_type \<Rightarrow> ptr \<Rightarrow> ptr \<Rightarrow> 'a world \<Rightarrow> (unit, 'a) outcome" where
  "move_assign_at T dst src w = (case (slot w dst, slot w src) of
       (Some (Some _), Some (Some x)) \<Rightarrow>
         if move_assign_throws T x then Raised ElementOperationFailure (log MoveAssign w)
         else Normal () (set_slot src (Some (moved_from T x)) (set_slot dst (Some x) (log MoveAssign w)))
     | _ \<Rightarrow> Undefined)"

text \<open>The destructor of \<^verbatim>\<open>T\<close> does not throw.\<close>

definition destroy_at :: "ptr \<Rightarrow> 'a world \<Rightarrow> (unit, 'a) outcome" where
  "destroy_at p w = (case slot w p of
       Some (Some _) \<Rightarrow> Normal () (set_slot p None (log Dtor w))
     | _ \<Rightarrow> Undefined)"

subsection \<open>Algorithms of the standard library on slots\<close>

text \<open>\<^verbatim>\<open>std::destroy_n(p, n)\<close>.\<close>

fun destroy_n :: "ptr \<Rightarrow> nat \<Rightarrow> 'a world \<Rightarrow> (unit, 'a) outcome" where
  "destroy_n p 0 w = Normal () w"
| "destroy_n p (Suc n) w = bind (destroy_at p w) (\<lambda>_ w'. destroy_n (ptr_add p 1) n w')"

text \<open>
  \<^verbatim>\<open>std::uninitialized_copy_n(first, n, d_first)\<close> and \<^verbatim>\<open>std::uninitialized_move_n\<close>:
  objects are constructed one after the other; when a construction throws, the objects
  already constructed in the destination are destroyed and the exception is rethrown.
  \<open>i\<close> counts the objects constructed so far, \<open>r\<close> those still to construct.
\<close>

fun uninitialized_n ::
  "(ptr \<Rightarrow> ptr \<Rightarrow> 'a world \<Rightarrow> (unit, 'a) outcome) \<Rightarrow> ptr \<Rightarrow> ptr \<Rightarrow> nat \<Rightarrow> nat \<Rightarrow> 'a world \<Rightarrow> (unit, 'a) outcome" where
  "uninitialized_n ctor first d_first i 0 w = Normal () w"
| "uninitialized_n ctor first d_first i (Suc r) w =
     (case ctor (ptr_add d_first i) (ptr_add first i) w of
        Normal _ w' \<Rightarrow> uninitialized_n ctor first d_first (Suc i) r w'
      | Raised e w' \<Rightarrow> (case destroy_n d_first i w' of Normal _ w'' \<Rightarrow> Raised e w'' | _ \<Rightarrow> Undefined)
      | Undefined \<Rightarrow> Undefined)"

definition uninitialized_copy_n :: "'a elem_type \<Rightarrow> ptr \<Rightarrow> nat \<Rightarrow> ptr \<Rightarrow> 'a world \<Rightarrow> (unit, 'a) outcome" where
  "uninitialized_copy_n T first n d_first w = uninitialized_n (copy_construct_at T) first d_first 0 n w"

definition uninitialized_move_n :: "'a elem_type \<Rightarrow> ptr \<Rightarrow> nat \<Rightarrow> ptr \<Rightarrow> 'a world \<Rightarrow> (unit, 'a) outcome" where
  "uninitialized_move_n T first n d_first w = uninitialized_n (move_construct_at T) first d_first 0 n w"

text \<open>
  \<^verbatim>\<open>std::uninitialized_move_n\<close> on a source range of \<^verbatim>\<open>const T\<close>: \<^verbatim>\<open>std::move\<close> of a
  \<^verbatim>\<open>const T&\<close> is a \<^verbatim>\<open>const T&&\<close>, which \<^verbatim>\<open>T(T&&)\<close> does not accept and \<^verbatim>\<open>T(const T&)\<close>
  does: overload resolution selects the copy constructor and the source is not modified.
\<close>

definition uninitialized_move_n_const :: "'a elem_type \<Rightarrow> ptr \<Rightarrow> nat \<Rightarrow> ptr \<Rightarrow> 'a world \<Rightarrow> (unit, 'a) outcome" where
  "uninitialized_move_n_const T first n d_first w = uninitialized_n (copy_construct_at T) first d_first 0 n w"

definition ptr_sub :: "ptr \<Rightarrow> nat \<Rightarrow> ptr option" where
  "ptr_sub p k = (if k \<le> snd p then Some (fst p, snd p - k) else None)"

text \<open>
  \<^verbatim>\<open>std::copy_backward(first, last, d_last)\<close> and \<^verbatim>\<open>std::move_backward\<close>, with
  \<open>n = last - first\<close>: \<^verbatim>\<open>*(--d_last) = *(--last)\<close> until \<^verbatim>\<open>last\<close> reaches \<^verbatim>\<open>first\<close>.
\<close>

fun assign_backward ::
  "(ptr \<Rightarrow> ptr \<Rightarrow> 'a world \<Rightarrow> (unit, 'a) outcome) \<Rightarrow> ptr \<Rightarrow> nat \<Rightarrow> ptr \<Rightarrow> 'a world \<Rightarrow> (unit, 'a) outcome" where
  "assign_backward asg first 0 d_last w = Normal () w"
| "assign_backward asg first (Suc n) d_last w =
     (case ptr_sub d_last 1 of
        None \<Rightarrow> Undefined
      | Some d \<Rightarrow> bind (asg d (ptr_add first n) w) (\<lambda>_ w'. assign_backward asg first n d w'))"

definition copy_backward :: "'a elem_type \<Rightarrow> ptr \<Rightarrow> nat \<Rightarrow> ptr \<Rightarrow> 'a world \<Rightarrow> (unit, 'a) outcome" where
  "copy_backward T first n d_last w = assign_backward (copy_assign_at T) first n d_last w"

definition move_backward :: "'a elem_type \<Rightarrow> ptr \<Rightarrow> nat \<Rightarrow> ptr \<Rightarrow> 'a world \<Rightarrow> (unit, 'a) outcome" where
  "move_backward T first n d_last w = assign_backward (move_assign_at T) first n d_last w"

text \<open>\<^verbatim>\<open>std::distance(p, q)\<close> on pointers into one array, \<open>p\<close> not behind \<open>q\<close>.\<close>

definition distance :: "ptr \<Rightarrow> ptr \<Rightarrow> nat option" where
  "distance p q =
     (if fst p = fst q \<and> snd p \<le> snd q then Some (snd q - snd p) else None)"

section \<open>RawMemory\<close>

text \<open>
  \<^verbatim>\<open>Allocate(n)\<close>: \<^verbatim>\<open>operator new(n * sizeof(T))\<close>, \<^verbatim>\<open>nullptr\<close> for \<open>n = 0\<close>.  The product
  is one of \<^verbatim>\<open>size_t\<close> values and wraps; the block that \<^verbatim>\<open>operator new\<close> returns for
  the resulting byte count holds \<open>alloc_slots T n\<close> whole slots, which are the \<open>n\<close> asked
  for only when the product does not wrap.  The memory system holds \<open>free_slots\<close> more
  slots and throws \<^verbatim>\<open>std::bad_alloc\<close> beyond them.  A new block gets the next address.
\<close>

definition alloc_slots :: "'a elem_type \<Rightarrow> nat \<Rightarrow> nat" where
  "alloc_slots T n = ((n * sizeof_T T) mod 2 ^ 64) div sizeof_T T"

definition Allocate :: "'a elem_type \<Rightarrow> nat \<Rightarrow> 'a world \<Rightarrow> (addr option, 'a) outcome" where
  "Allocate T n w =
     (if n \<noteq> 0 then
        (if alloc_slots T n \<le> free_slots w
         then Normal (Some (length (heap w)))
                (w\<lparr>heap := heap w @ [Some (replicate (alloc_slots T n) None)],
                   free_slots := free_slots w - alloc_slots T n\<rparr>)
         else Raised AllocationFailure w)
      else Normal None w)"

text \<open>\<^verbatim>\<open>Deallocate(buf)\<close>: \<^verbatim>\<open>operator delete\<close>; the contents of the block are not looked at.\<close>

definition Deallocate :: "addr option \<Rightarrow> 'a world \<Rightarrow> (unit, 'a) outcome" where
  "Deallocate buf w = (case buf of
       None \<Rightarrow> Normal () w
     | Some a \<Rightarrow> (case get_block w a of
           None \<Rightarrow> Undefined
         | Some blk \<Rightarrow> Normal () (w\<lparr>heap := (heap w)[a := None], free_slots := free_slots w + length blk\<rparr>)))"

definition RawMemory_default :: RawMemory where
  "RawMemory_default = \<lparr>buffer_m = None, capacity_m = 0\<rparr>"

text \<open>\<^verbatim>\<open>RawMemory(capacity)\<close>: \<^verbatim>\<open>capacity_\<close> is the number asked for, whatever the block
  holds.\<close>

definition RawMemory_ctor :: "'a elem_type \<Rightarrow> nat \<Rightarrow> 'a world \<Rightarrow> (RawMemory, 'a) outcome" where
  "RawMemory_ctor T capacity w =
     bind (Allocate T capacity w) (\<lambda>b w'. Normal \<lparr>buffer_m = b, capacity_m = capacity\<rparr> w')"

definition RawMemory_dtor :: "RawMemory \<Rightarrow> 'a world \<Rightarrow> (unit, 'a) outcome" where
  "RawMemory_dtor m w = Deallocate (buffer_m m) w"

definition GetAddress :: "RawMemory \<Rightarrow> ptr" where
  "GetAddress m = (buffer_m m, 0)"

text \<open>\<^verbatim>\<open>operator+\<close> and \<^verbatim>\<open>operator[]\<close> of \<^verbatim>\<open>RawMemory\<close>; \<open>None\<close> when the assertion fails.\<close>

definition RawMemory_plus :: "RawMemory \<Rightarrow> nat \<Rightarrow> ptr option" where
  "RawMemory_plus m offset = (if offset \<le> capacity_m m then Some (ptr_add (GetAddress m) offset) else None)"

definition RawMemory_index :: "RawMemory \<Rightarrow> nat \<Rightarrow> ptr option" where
  "RawMemory_index m index = (if index < capacity_m m then Some (ptr_add (GetAddress m) index) else None)"

text \<open>\<^verbatim>\<open>a.Swap(b)\<close>: the new \<open>a\<close> and the new \<open>b\<close>.\<close>

definition RawMemory_Swap :: "RawMemory \<Rightarrow> RawMemory \<Rightarrow> RawMemory \<times> RawMemory" where
  "RawMemory_Swap a b =
     (a\<lparr>buffer_m := buffer_m b, capacity_m := capacity_m b\<rparr>, b\<lparr>buffer_m := buffer_m a, capacity_m := capacity_m a\<rparr>)"

section \<open>Vector\<close>

definition get_obj :: "'a world \<Rightarrow> nat \<Rightarrow> Vector option" where
  "get_obj w this = (if this < length (objs w) then objs w ! this else None)"

definition upd_obj :: "nat \<Rightarrow> (Vector \<Rightarrow> Vector) \<Rightarrow> 'a world \<Rightarrow> 'a world" where
  "upd_obj this f w = w\<lparr>objs := (objs w)[this := map_option f (get_obj w this)]\<rparr>"

definition Size :: "Vector \<Rightarrow> nat" where
  "Size v = size_m v"

definition Capacity :: "Vector \<Rightarrow> nat" where
  "Capacity v = capacity_m (data_m v)"

text \<open>\<^verbatim>\<open>begin()\<close>, \<^verbatim>\<open>cbegin()\<close> and \<^verbatim>\<open>end()\<close>, \<^verbatim>\<open>cend()\<close>.\<close>

definition Vector_begin :: "Vector \<Rightarrow> ptr" where
  "Vector_begin v = GetAddress (data_m v)"

definition Vector_end :: "Vector \<Rightarrow> ptr" where
  "Vector_end v = ptr_add (GetAddress (data_m v)) (size_m v)"

text \<open>\<^verbatim>\<open>operator[]\<close>: the slot of element \<open>index\<close>; \<open>None\<close> when an assertion fails.\<close>

definition Vector_index :: "Vector \<Rightarrow> nat \<Rightarrow> ptr option" where
  "Vector_index v index = (if index < size_m v then RawMemory_index (data_m v) index else None)"

text \<open>The constructors return the identity of the object they construct.\<close>

definition Vector_default :: "'a world \<Rightarrow> (nat, 'a) outcome" where
  "Vector_default w =
     Normal (length (objs w)) (w\<lparr>objs := objs w @ [Some \<lparr>data_m = RawMemory_default, size_m = 0\<rparr>]\<rparr>)"

text \<open>\<^verbatim>\<open>~Vector()\<close>, followed by the destructor of the member \<^verbatim>\<open>data_\<close>.\<close>

definition Vector_dtor :: "nat \<Rightarrow> 'a world \<Rightarrow> (unit, 'a) outcome" where
  "Vector_dtor this w = (case get_obj w this of
       None \<Rightarrow> Undefined
     | Some v \<Rightarrow>
         bind (destroy_n (GetAddress (data_m v)) (size_m v) w) (\<lambda>_ w1.
         bind (RawMemory_dtor (data_m v) w1) (\<lambda>_ w2.
         Normal () (w2\<lparr>objs := (objs w2)[this := None]\<rparr>))))"

text \<open>
  \<^verbatim>\<open>Vector(const Vector& other)\<close>.  \<^verbatim>\<open>other.data_.GetAddress()\<close> is a \<^verbatim>\<open>const T*\<close>, so the
  first branch is \<^verbatim>\<open>std::uninitialized_move_n\<close> on a range of \<^verbatim>\<open>const T\<close>.  When the
  construction of the elements throws, the member \<^verbatim>\<open>data_\<close> is destroyed and no object exists.
\<close>

definition Vector_copy :: "'a elem_type \<Rightarrow> nat \<Rightarrow> 'a world \<Rightarrow> (nat, 'a) outcome" where
  "Vector_copy T other w = (case get_obj w other of
       None \<Rightarrow> Undefined
     | Some ov \<Rightarrow>
         bind (RawMemory_ctor T (size_m ov) w) (\<lambda>d w1.
         bind (unwind
                (if is_nothrow_move_constructible T \<or> \<not> is_copy_constructible T
                 then uninitialized_move_n_const T (GetAddress (data_m ov)) (size_m ov) (GetAddress d) w1
                 else uninitialized_copy_n T (GetAddress (data_m ov)) (size_m ov) (GetAddress d) w1)
                (RawMemory_dtor d)) (\<lambda>_ w2.
         Normal (length (objs w2)) (w2\<lparr>objs := objs w2 @ [Some \<lparr>data_m = d, size_m = size_m ov\<rparr>]\<rparr>))))"

text \<open>\<^verbatim>\<open>Swap(other)\<close>: \<^verbatim>\<open>std::swap(size_, other.size_)\<close>, then \<^verbatim>\<open>data_.Swap(other.data_)\<close>.\<close>

definition Swap :: "nat \<Rightarrow> nat \<Rightarrow> 'a world \<Rightarrow> (unit, 'a) outcome" where
  "Swap this other w = (case (get_obj w this, get_obj w other) of
       (Some a, Some b) \<Rightarrow>
         (let w1 = upd_obj other (\<lambda>v. v\<lparr>size_m := size_m a\<rparr>) (upd_obj this (\<lambda>v. v\<lparr>size_m := size_m b\<rparr>) w)
          in Normal ()
               (upd_obj other (\<lambda>v. v\<lparr>data_m := snd (RawMemory_Swap (data_m a) (data_m b))\<rparr>)
                 (upd_obj this (\<lambda>v. v\<lparr>data_m := fst (RawMemory_Swap (data_m a) (data_m b))\<rparr>) w1)))
     | _ \<Rightarrow> Undefined)"

text \<open>\<^verbatim>\<open>Vector(Vector&& other)\<close>: the members get their default initialisers, then
  \<^verbatim>\<open>Swap(other)\<close>.\<close>

definition Vector_move :: "nat \<Rightarrow> 'a world \<Rightarrow> (nat, 'a) outcome" where
  "Vector_move other w =
     bind (Vector_default w) (\<lambda>this w1. bind (Swap this other w1) (\<lambda>_ w2. Normal this w2))"

text \<open>The loop of the copy assignment: \<^verbatim>\<open>operator[](i) = rhs[i]\<close> for \<open>r\<close> more indices
  from \<open>i\<close>.\<close>

fun assign_elems :: "'a elem_type \<Rightarrow> nat \<Rightarrow> nat \<Rightarrow> nat \<Rightarrow> nat \<Rightarrow> 'a world \<Rightarrow> (unit, 'a) outcome" where
  "assign_elems T this rhs i 0 w = Normal () w"
| "assign_elems T this rhs i (Suc r) w = (case (get_obj w this, get_obj w rhs) of
       (Some t, Some s) \<Rightarrow> (case (Vector_index t i, Vector_index s i) of
           (Some d, Some q) \<Rightarrow> bind (copy_assign_at T d q w) (\<lambda>_ w'. assign_elems T this rhs (Suc i) r w')
         | _ \<Rightarrow> Undefined)
     | _ \<Rightarrow> Undefined)"

text \<open>\<^verbatim>\<open>operator=(const Vector& rhs)\<close>.  The temporary \<^verbatim>\<open>rhs_copy\<close> is destroyed when its block
  is left.\<close>

definition assign_copy :: "'a elem_type \<Rightarrow> nat \<Rightarrow> nat \<Rightarrow> 'a world \<Rightarrow> (unit, 'a) outcome" where
  "assign_copy T this rhs w =
     (if this \<noteq> rhs then
        (case (get_obj w this, get_obj w rhs) of
           (Some t, Some r) \<Rightarrow>
             if size_m r > capacity_m (data_m t) then
               bind (Vector_copy T rhs w) (\<lambda>rhs_copy w1.
               bind (Swap this rhs_copy w1) (\<lambda>_ w2.
               Vector_dtor rhs_copy w2))
             else
               bind (if size_m t < size_m r
                     then uninitialized_copy_n T (ptr_add (GetAddress (data_m r)) (size_m t))
                            (size_m r - size_m t) (ptr_add (GetAddress (data_m t)) (size_m t)) w
                     else destroy_n (ptr_add (GetAddress (data_m t)) (size_m r)) (size_m t - size_m r) w) (\<lambda>_ w1.
               assign_elems T this rhs 0 (min (size_m t) (size_m r))
                 (upd_obj this (\<lambda>v. v\<lparr>size_m := size_m r\<rparr>) w1))
         | _ \<Rightarrow> Undefined)
      else Normal () w)"

text \<open>\<^verbatim>\<open>operator=(Vector&& rhs)\<close>.\<close>

definition assign_move :: "nat \<Rightarrow> nat \<Rightarrow> 'a world \<Rightarrow> (unit, 'a) outcome" where
  "assign_move this rhs w =
     (if this \<noteq> rhs then
        (case get_obj w this of
           None \<Rightarrow> Undefined
         | Some _ \<Rightarrow> Swap this rhs (upd_obj this (\<lambda>v. v\<lparr>size_m := 0\<rparr>) w))
      else Normal () w)"

text \<open>
  \<^verbatim>\<open>Reserve(new_capacity)\<close>.  The local \<^verbatim>\<open>new_data\<close> is destroyed when the function is left:
  by an exception while it holds the new block, or at the end when, after
  \<^verbatim>\<open>data_.Swap(new_data)\<close>, it holds the old one.
\<close>

definition Reserve :: "'a elem_type \<Rightarrow> nat \<Rightarrow> nat \<Rightarrow> 'a world \<Rightarrow> (unit, 'a) outcome" where
  "Reserve T this new_capacity w = (case get_obj w this of
       None \<Rightarrow> Undefined
     | Some v \<Rightarrow>
         if new_capacity \<le> capacity_m (data_m v) then Normal () w
         else
           bind (RawMemory_ctor T new_capacity w) (\<lambda>new_data w1.
           bind (unwind
                  (if is_nothrow_move_constructible T \<or> \<not> is_copy_constructible T
                   then uninitialized_move_n T (GetAddress (data_m v)) (size_m v) (GetAddress new_data) w1
                   else uninitialized_copy_n T (GetAddress (data_m v)) (size_m v) (GetAddress new_data) w1)
                  (RawMemory_dtor new_data)) (\<lambda>_ w2.
           bind (destroy_n (GetAddress (data_m v)) (size_m v) w2) (\<lambda>_ w3.
           RawMemory_dtor (snd (RawMemory_Swap (data_m v) new_data))
             (upd_obj this (\<lambda>x. x\<lparr>data_m := fst (RawMemory_Swap (data_m v) new_data)\<rparr>) w3)))))"

text \<open>
  \<^verbatim>\<open>PushBack(const T& value)\<close> and \<^verbatim>\<open>PushBack(T&& value)\<close>.  In the growing branch the new
  element is constructed first, at \<^verbatim>\<open>new_data + size_\<close>; then the elements are relocated,
  the blocks are swapped, the old elements are destroyed and the old block is released.
  The argument of the second form is the slot of the object that \<^verbatim>\<open>value\<close> refers to.
\<close>

definition PushBack_copy :: "'a elem_type \<Rightarrow> nat \<Rightarrow> 'a \<Rightarrow> 'a world \<Rightarrow> (unit, 'a) outcome" where
  "PushBack_copy T this val w = (case get_obj w this of
       None \<Rightarrow> Undefined
     | Some v \<Rightarrow>
         bind (if size_m v = Capacity v then
                 bind (RawMemory_ctor T (if size_m v = 0 then 1 else size_m v * 2) w) (\<lambda>new_data w1.
                 bind (unwind
                        (bind (case RawMemory_plus new_data (size_m v) of
                                 None \<Rightarrow> Undefined
                               | Some p \<Rightarrow> construct_at T p (CopyOf val) w1) (\<lambda>_ w2.
                         if is_nothrow_move_constructible T \<or> \<not> is_copy_constructible T
                         then uninitialized_move_n T (GetAddress (data_m v)) (size_m v) (GetAddress new_data) w2
                         else uninitialized_copy_n T (GetAddress (data_m v)) (size_m v) (GetAddress new_data) w2))
                        (RawMemory_dtor new_data)) (\<lambda>_ w3.
                 bind (destroy_n (GetAddress (snd (RawMemory_Swap (data_m v) new_data))) (size_m v)
                        (upd_obj this (\<lambda>x. x\<lparr>data_m := fst (RawMemory_Swap (data_m v) new_data)\<rparr>) w3)) (\<lambda>_ w4.
                 RawMemory_dtor (snd (RawMemory_Swap (data_m v) new_data)) w4)))
               else (case RawMemory_plus (data_m v) (size_m v) of
                       None \<Rightarrow> Undefined
                     | Some p \<Rightarrow> construct_at T p (CopyOf val) w)) (\<lambda>_ w5.
         Normal () (upd_obj this (\<lambda>x. x\<lparr>size_m := size_m x + 1\<rparr>) w5)))"

definition PushBack_move :: "'a elem_type \<Rightarrow> nat \<Rightarrow> ptr \<Rightarrow> 'a world \<Rightarrow> (unit, 'a) outcome" where
  "PushBack_move T this val w = (case get_obj w this of
       None \<Rightarrow> Undefined
     | Some v \<Rightarrow>
         bind (if size_m v = Capacity v then
                 bind (RawMemory_ctor T (if size_m v = 0 then 1 else size_m v * 2) w) (\<lambda>new_data w1.
                 bind (unwind
                        (bind (case RawMemory_plus new_data (size_m v) of
                                 None \<Rightarrow> Undefined
                               | Some p \<Rightarrow> construct_at T p (MoveOf val) w1) (\<lambda>_ w2.
                         if is_nothrow_move_constructible T \<or> \<not> is_copy_constructible T
                         then uninitialized_move_n T (GetAddress (data_m v)) (size_m v) (GetAddress new_data) w2
                         else uninitialized_copy_n T (GetAddress (data_m v)) (size_m v) (GetAddress new_data) w2))
                        (RawMemory_dtor new_data)) (\<lambda>_ w3.
                 bind (destroy_n (GetAddress (snd (RawMemory_Swap (data_m v) new_data))) (size_m v)
                        (upd_obj this (\<lambda>x. x\<lparr>data_m := fst (RawMemory_Swap (data_m v) new_data)\<rparr>) w3)) (\<lambda>_ w4.
                 RawMemory_dtor (snd (RawMemory_Swap (data_m v) new_data)) w4)))
               else (case RawMemory_plus (data_m v) (size_m v) of
                       None \<Rightarrow> Undefined
                     | Some p \<Rightarrow> construct_at T p (MoveOf val) w)) (\<lambda>_ w5.
         Normal () (upd_obj this (\<lambda>x. x\<lparr>size_m := size_m x + 1\<rparr>) w5)))"

text \<open>\<^verbatim>\<open>EmplaceBack(args...)\<close>: as \<^verbatim>\<open>PushBack\<close>, with the new element at
  \<^verbatim>\<open>new_data.GetAddress() + size_\<close>; it returns \<^verbatim>\<open>data_[size_ - 1]\<close>.\<close>

definition EmplaceBack :: "'a elem_type \<Rightarrow> nat \<Rightarrow> 'a ctor_args \<Rightarrow> 'a world \<Rightarrow> (ptr, 'a) outcome" where
  "EmplaceBack T this args w = (case get_obj w this of
       None \<Rightarrow> Undefined
     | Some v \<Rightarrow>
         bind (if size_m v = Capacity v then
                 bind (RawMemory_ctor T (if size_m v = 0 then 1 else size_m v * 2) w) (\<lambda>new_data w1.
                 bind (unwind
                        (bind (construct_at T (ptr_add (GetAddress new_data) (size_m v)) args w1) (\<lambda>_ w2.
                         if is_nothrow_move_constructible T \<or> \<not> is_copy_constructible T
                         then uninitialized_move_n T (GetAddress (data_m v)) (size_m v) (GetAddress new_data) w2
                         else uninitialized_copy_n T (GetAddress (data_m v)) (size_m v) (GetAddress new_data) w2))
                        (RawMemory_dtor new_data)) (\<lambda>_ w3.
                 bind (destroy_n (GetAddress (snd (RawMemory_Swap (data_m v) new_data))) (size_m v)
                        (upd_obj this (\<lambda>x. x\<lparr>data_m := fst (RawMemory_Swap (data_m v) new_data)\<rparr>) w3)) (\<lambda>_ w4.
                 RawMemory_dtor (snd (RawMemory_Swap (data_m v) new_data)) w4)))
               else (case RawMemory_plus (data_m v) (size_m v) of
                       None \<Rightarrow> Undefined
                     | Some p \<Rightarrow> construct_at T p args w)) (\<lambda>_ w5.
         (case get_obj (upd_obj this (\<lambda>x. x\<lparr>size_m := size_m x + 1\<rparr>) w5) this of
            None \<Rightarrow> Undefined
          | Some v' \<Rightarrow> (case RawMemory_index (data_m v') (size_m v' - 1) of
                None \<Rightarrow> Undefined
              | Some p \<Rightarrow> Normal p (upd_obj this (\<lambda>x. x\<lparr>size_m := size_m x + 1\<rparr>) w5)))))"

text \<open>
  \<^verbatim>\<open>Emplace(pos, args...)\<close>.  \<open>cursor\<close> is \<^verbatim>\<open>std::distance(begin(), pos)\<close> and \<open>rest\<close> is
  \<^verbatim>\<open>std::distance(pos, cend())\<close>; a \<open>pos\<close> outside \<^verbatim>\<open>[begin(), end()]\<close> is a violated
  contract.  The range forms \<^verbatim>\<open>std::uninitialized_move(first, last, d)\<close> are the counted
  forms with \<open>n = last - first\<close>.  In the branch without growth the local \<^verbatim>\<open>new_value\<close> is a
  block of one slot, which is released when the branch is left.
\<close>

definition Emplace :: "'a elem_type \<Rightarrow> nat \<Rightarrow> ptr \<Rightarrow> 'a ctor_args \<Rightarrow> 'a world \<Rightarrow> (ptr, 'a) outcome" where
  "Emplace T this pos args w = (case get_obj w this of
       None \<Rightarrow> Undefined
     | Some v \<Rightarrow> (case (distance (Vector_begin v) pos, distance pos (Vector_end v)) of
         (Some cursor, Some rest) \<Rightarrow>
           bind (if rest = 0 then bind (EmplaceBack T this args w) (\<lambda>_ w'. Normal () w')
                 else
                   bind (if size_m v = Capacity v then
                           bind (RawMemory_ctor T (if size_m v = 0 then 1 else size_m v * 2) w) (\<lambda>new_data w1.
                           bind (unwind
                                  (bind (construct_at T (ptr_add (GetAddress new_data) cursor) args w1) (\<lambda>_ w2.
                                   if is_nothrow_move_constructible T \<or> \<not> is_copy_constructible T
                                   then bind (uninitialized_move_n T (Vector_begin v) cursor (GetAddress new_data) w2) (\<lambda>_ w3.
                                        uninitialized_move_n T pos rest (ptr_add (GetAddress new_data) (cursor + 1)) w3)
                                   else bind (uninitialized_copy_n T (Vector_begin v) cursor (GetAddress new_data) w2) (\<lambda>_ w3.
                                        uninitialized_copy_n T pos rest (ptr_add (GetAddress new_data) (cursor + 1)) w3)))
                                  (RawMemory_dtor new_data)) (\<lambda>_ w4.
                           bind (destroy_n (GetAddress (snd (RawMemory_Swap (data_m v) new_data))) (size_m v)
                                  (upd_obj this (\<lambda>x. x\<lparr>data_m := fst (RawMemory_Swap (data_m v) new_data)\<rparr>) w4)) (\<lambda>_ w5.
                           RawMemory_dtor (snd (RawMemory_Swap (data_m v) new_data)) w5)))
                         else
                           bind (RawMemory_ctor T 1 w) (\<lambda>new_value w1.
                           bind (unwind
                                  (bind (construct_at T (GetAddress new_value) args w1) (\<lambda>_ w2.
                                   bind (case ptr_sub (Vector_end v) 1 of
                                           None \<Rightarrow> Undefined
                                         | Some lst \<Rightarrow>
                                             if is_nothrow_move_assignable T \<or> \<not> is_copy_assignable T
                                             then bind (uninitialized_move_n T lst 1 (Vector_end v) w2) (\<lambda>_ w3.
                                                  bind (move_backward T pos (rest - 1) (Vector_end v) w3) (\<lambda>_ w4.
                                                  move_assign_at T (ptr_add (GetAddress (data_m v)) cursor) (GetAddress new_value) w4))
                                             else bind (uninitialized_copy_n T lst 1 (Vector_end v) w2) (\<lambda>_ w3.
                                                  bind (copy_backward T pos (rest - 1) (Vector_end v) w3) (\<lambda>_ w4.
                                                  copy_assign_at T (ptr_add (GetAddress (data_m v)) cursor) (GetAddress new_value) w4))) (\<lambda>_ w5.
                                   destroy_n (GetAddress new_value) 1 w5)))
                                  (RawMemory_dtor new_value)) (\<lambda>_ w6.
                           RawMemory_dtor new_value w6))) (\<lambda>_ w7.
                   Normal () (upd_obj this (\<lambda>x. x\<lparr>size_m := size_m x + 1\<rparr>) w7))) (\<lambda>_ w8.
           (case get_obj w8 this of
              None \<Rightarrow> Undefined
            | Some v' \<Rightarrow> Normal (ptr_add (GetAddress (data_m v')) cursor) w8))
       | _ \<Rightarrow> Undefined))"

text \<open>\<^verbatim>\<open>Insert(pos, const T& value)\<close> and \<^verbatim>\<open>Insert(pos, T&& value)\<close>.\<close>

definition Insert_copy :: "'a elem_type \<Rightarrow> nat \<Rightarrow> ptr \<Rightarrow> 'a \<Rightarrow> 'a world \<Rightarrow> (ptr, 'a) outcome" where
  "Insert_copy T this pos val w = Emplace T this pos (CopyOf val) w"

definition Insert_move :: "'a elem_type \<Rightarrow> nat \<Rightarrow> ptr \<Rightarrow> ptr \<Rightarrow> 'a world \<Rightarrow> (ptr, 'a) outcome" where
  "Insert_move T this pos val w = Emplace T this pos (MoveOf val) w"

section \<open>Observations\<close>

text \<open>What \<^verbatim>\<open>v[i]\<close> reads: the value in slot \<open>i\<close> of the block, \<open>None\<close> when the read is not
  defined.\<close>

definition elem :: "'a world \<Rightarrow> nat \<Rightarrow> nat \<Rightarrow> 'a option" where
  "elem w this i = (case get_obj w this of
       None \<Rightarrow> None
     | Some v \<Rightarrow> (case Vector_index v i of
           None \<Rightarrow> None
         | Some p \<Rightarrow> (case slot w p of Some (Some x) \<Rightarrow> Some x | _ \<Rightarrow> None)))"

definition contents :: "'a world \<Rightarrow> nat \<Rightarrow> 'a option list" where
  "contents w this = (case get_obj w this of
       None \<Rightarrow> []
     | Some v \<Rightarrow> map (elem w this) [0..<size_m v])"

text \<open>
  The invariant of a vector: the size is at most the capacity, the buffer is null exactly
  when the capacity is zero and otherwise an allocated block of \<open>capacity\<close> slots, the
  slots below \<open>size\<close> hold live objects and the slots from \<open>size\<close> on are raw memory.
\<close>

definition vector_inv :: "'a world \<Rightarrow> Vector \<Rightarrow> bool" where
  "vector_inv w v \<longleftrightarrow>
     size_m v \<le> capacity_m (data_m v) \<and>
     (case buffer_m (data_m v) of
        None \<Rightarrow> capacity_m (data_m v) = 0
      | Some a \<Rightarrow> capacity_m (data_m v) \<noteq> 0 \<and>
          (case get_block w a of
             None \<Rightarrow> False
           | Some blk \<Rightarrow> length blk = capacity_m (data_m v) \<and>
               list_all (\<lambda>s. s \<noteq> None) (take (size_m v) blk) \<and>
               list_all (\<lambda>s. s = None) (drop (size_m v) blk)))"

text \<open>A client changes element \<open>i\<close> through the reference that \<^verbatim>\<open>operator[]\<close> returns: the
  object in that slot now holds \<open>x\<close>.\<close>

definition store_elem :: "nat \<Rightarrow> nat \<Rightarrow> 'a \<Rightarrow> 'a world \<Rightarrow> (unit, 'a) outcome" where
  "store_elem this i x w = (case get_obj w this of
       None \<Rightarrow> Undefined
     | Some v \<Rightarrow> (case Vector_index v i of
           None \<Rightarrow> Undefined
         | Some p \<Rightarrow> (case slot w p of
               Some (Some _) \<Rightarrow> Normal () (set_slot p (Some x) w)
             | _ \<Rightarrow> Undefined)))"

section \<open>Auxiliary notions\<close>

text \<open>The pointers of the range of \<open>n\<close> slots that starts at \<open>p\<close>.\<close>

definition in_range :: "ptr \<Rightarrow> nat \<Rightarrow> ptr \<Rightarrow> bool" where
  "in_range p n q \<longleftrightarrow> fst q = fst p \<and> snd p \<le> snd q \<and> snd q < snd p + n"

text \<open>The constructor that a constructor call with the arguments \<open>args\<close> selects, and the
  value it builds in the world \<open>w\<close>: \<open>None\<close> when it throws (or when a \<^verbatim>\<open>T&&\<close> refers to no
  object).\<close>

fun ctor_event :: "'a ctor_args \<Rightarrow> event" where
  "ctor_event (Args r) = ArgsCtor"
| "ctor_event (CopyOf x) = CopyCtor"
| "ctor_event (MoveOf src) = MoveCtor"

fun constructed :: "'a elem_type \<Rightarrow> 'a ctor_args \<Rightarrow> 'a world \<Rightarrow> 'a option" where
  "constructed T (Args r) w = r"
| "constructed T (CopyOf x) w = (if copy_throws T x then None else Some x)"
| "constructed T (MoveOf src) w = (case slot w src of
       Some (Some x) \<Rightarrow> if move_throws T x then None else Some x
     | _ \<Rightarrow> None)"

text \<open>The constructor throws on the arguments \<open>args\<close> in the world \<open>w\<close>.\<close>

fun ctor_throws :: "'a elem_type \<Rightarrow> 'a ctor_args \<Rightarrow> 'a world \<Rightarrow> bool" where
  "ctor_throws T (Args r) w = (case r of None \<Rightarrow> True | Some x \<Rightarrow> False)"
| "ctor_throws T (CopyOf x) w = copy_throws T x"
| "ctor_throws T (MoveOf src) w = (case slot w src of
       Some (Some x) \<Rightarrow> move_throws T x
     | _ \<Rightarrow> False)"

text \<open>The arguments are not a \<^verbatim>\<open>T&&\<close> to an object in the block of the vector \<open>v\<close>: the
  call does not move from an element of the vector itself.\<close>

fun outside :: "'a ctor_args \<Rightarrow> Vector \<Rightarrow> bool" where
  "outside (MoveOf src) v = (fst src \<noteq> fst (Vector_begin v))"
| "outside (Args r) v = True"
| "outside (CopyOf x) v = True"

text \<open>\<^verbatim>\<open>operator new\<close> can deliver a block of \<open>n\<close> slots: the byte count does not wrap and the
  memory system has the slots.\<close>

definition allocatable :: "'a elem_type \<Rightarrow> nat \<Rightarrow> 'a world \<Rightarrow> bool" where
  "allocatable T n w \<longleftrightarrow> 0 < sizeof_T T \<and> n * sizeof_T T < 2 ^ 64 \<and> n \<le> free_slots w"

text \<open>Both worlds have the same objects, the same free memory and the same allocated blocks
  (with the same numbers of slots).\<close>

definition same_blocks :: "'a world \<Rightarrow> 'a world \<Rightarrow> bool" where
  "same_blocks w w' \<longleftrightarrow>
     objs w' = objs w \<and> free_slots w' = free_slots w \<and>
     (\<forall>a. map_option length (get_block w' a) = map_option length (get_block w a))"

text \<open>The condition of the \<^verbatim>\<open>if constexpr\<close> that selects how elements are relocated into a
  new block, and whether the constructor it selects throws on a value.\<close>

definition relocates_by_move :: "'a elem_type \<Rightarrow> bool" where
  "relocates_by_move T \<longleftrightarrow> is_nothrow_move_constructible T \<or> \<not> is_copy_constructible T"

definition relocation_throws :: "'a elem_type \<Rightarrow> 'a \<Rightarrow> bool" where
  "relocation_throws T x = (if relocates_by_move T then move_throws T x else copy_throws T x)"

text \<open>
  The part that \<^verbatim>\<open>PushBack(const T&)\<close>, \<^verbatim>\<open>PushBack(T&&)\<close> and \<^verbatim>\<open>EmplaceBack\<close> have in
  common: the new element is constructed from \<open>args\<close> behind the last one, in a new block
  when the vector is full.
\<close>

definition append_new :: "'a elem_type \<Rightarrow> nat \<Rightarrow> Vector \<Rightarrow> 'a ctor_args \<Rightarrow> 'a world \<Rightarrow> (unit, 'a) outcome" where
  "append_new T this v args w =
     (if size_m v = Capacity v then
        bind (RawMemory_ctor T (if size_m v = 0 then 1 else size_m v * 2) w) (\<lambda>new_data w1.
        bind (unwind
               (bind (construct_at T (ptr_add (GetAddress new_data) (size_m v)) args w1) (\<lambda>_ w2.
                if is_nothrow_move_constructible T \<or> \<not> is_copy_constructible T
                then uninitialized_move_n T (GetAddress (data_m v)) (size_m v) (GetAddress new_data) w2
                else uninitialized_copy_n T (GetAddress (data_m v)) (size_m v) (GetAddress new_data) w2))
               (RawMemory_dtor new_data)) (\<lambda>_ w3.
        bind (destroy_n (GetAddress (snd (RawMemory_Swap (data_m v) new_data))) (size_m v)
               (upd_obj this (\<lambda>x. x\<lparr>data_m := fst (RawMemory_Swap (data_m v) new_data)\<rparr>) w3)) (\<lambda>_ w4.
        RawMemory_dtor (snd (RawMemory_Swap (data_m v) new_data)) w4)))
      else (case RawMemory_plus (data_m v) (size_m v) of
              None \<Rightarrow> Undefined
            | Some p \<Rightarrow> construct_at T p args w))"

text \<open>The two branches of \<^verbatim>\<open>Emplace\<close> for a position before the end: into a new block when
  the vector is full, and by shifting the elements from the position on otherwise.\<close>

definition emplace_grow ::
  "'a elem_type \<Rightarrow> nat \<Rightarrow> Vector \<Rightarrow> ptr \<Rightarrow> nat \<Rightarrow> nat \<Rightarrow> 'a ctor_args \<Rightarrow> 'a world \<Rightarrow> (unit, 'a) outcome" where
  "emplace_grow T this v pos cursor rest args w =
     bind (RawMemory_ctor T (if size_m v = 0 then 1 else size_m v * 2) w) (\<lambda>new_data w1.
     bind (unwind
            (bind (construct_at T (ptr_add (GetAddress new_data) cursor) args w1) (\<lambda>_ w2.
             if is_nothrow_move_constructible T \<or> \<not> is_copy_constructible T
             then bind (uninitialized_move_n T (Vector_begin v) cursor (GetAddress new_data) w2) (\<lambda>_ w3.
                  uninitialized_move_n T pos rest (ptr_add (GetAddress new_data) (cursor + 1)) w3)
             else bind (uninitialized_copy_n T (Vector_begin v) cursor (GetAddress new_data) w2) (\<lambda>_ w3.
                  uninitialized_copy_n T pos rest (ptr_add (GetAddress new_data) (cursor + 1)) w3)))
            (RawMemory_dtor new_data)) (\<lambda>_ w4.
     bind (destroy_n (GetAddress (snd (RawMemory_Swap (data_m v) new_data))) (size_m v)
            (upd_obj this (\<lambda>x. x\<lparr>data_m := fst (RawMemory_Swap (data_m v) new_data)\<rparr>) w4)) (\<lambda>_ w5.
     RawMemory_dtor (snd (RawMemory_Swap (data_m v) new_data)) w5)))"

definition emplace_shift ::
  "'a elem_type \<Rightarrow> Vector \<Rightarrow> ptr \<Rightarrow> nat \<Rightarrow> nat \<Rightarrow> 'a ctor_args \<Rightarrow> 'a world \<Rightarrow> (unit, 'a) outcome" where
  "emplace_shift T v pos cursor rest args w =
     bind (RawMemory_ctor T 1 w) (\<lambda>new_value w1.
     bind (unwind
            (bind (construct_at T (GetAddress new_value) args w1) (\<lambda>_ w2.
             bind (case ptr_sub (Vector_end v) 1 of
                     None \<Rightarrow> Undefined
                   | Some lst \<Rightarrow>
                       if is_nothrow_move_assignable T \<or> \<not> is_copy_assignable T
                       then bind (uninitialized_move_n T lst 1 (Vector_end v) w2) (\<lambda>_ w3.
                            bind (move_backward T pos (rest - 1) (Vector_end v) w3) (\<lambda>_ w4.
                            move_assign_at T (ptr_add (GetAddress (data_m v)) cursor) (GetAddress new_value) w4))
                       else bind (uninitialized_copy_n T lst 1 (Vector_end v) w2) (\<lambda>_ w3.
                            bind (copy_backward T pos (rest - 1) (Vector_end v) w3) (\<lambda>_ w4.
                            copy_assign_at T (ptr_add (GetAddress (data_m v)) cursor) (GetAddress new_value) w4))) (\<lambda>_ w5.
             destroy_n (GetAddress new_value) 1 w5)))
            (RawMemory_dtor new_value)) (\<lambda>_ w6.
     RawMemory_dtor new_value w6))"


section \<open>Concrete element types and worlds\<close>

text \<open>The element types have eight bytes.  An element type over \<open>nat\<close> whose relocation goes by copy construction and whose
  shifting goes by copy assignment; copying \<open>13\<close> throws.\<close>

definition T_copy :: "nat elem_type" where
  "T_copy = \<lparr>sizeof_T = 8, is_nothrow_move_constructible = False, is_copy_constructible = True,
     is_nothrow_move_assignable = False, is_copy_assignable = True,
     copy_throws = (\<lambda>x. x = 13), move_throws = (\<lambda>_. False),
     copy_assign_throws = (\<lambda>_. False), move_assign_throws = (\<lambda>_. False),
     moved_from = (\<lambda>_. 0)\<rparr>"

text \<open>One vector, object \<open>0\<close>, with the elements \<open>7, 8\<close> in a block of three slots.\<close>

definition v_one :: Vector where
  "v_one = \<lparr>data_m = \<lparr>buffer_m = Some 0, capacity_m = 3\<rparr>, size_m = 2\<rparr>"

definition w_one :: "nat world" where
  "w_one = \<lparr>heap = [Some [Some 7, Some 8, None]], free_slots = 10, objs = [Some v_one], trace = []\<rparr>"

text \<open>An element type over \<open>nat\<close> none of whose operations throws, with move operations
  declared non-throwing; a moved-from object holds \<open>0\<close>.\<close>

definition T_nothrow :: "nat elem_type" where
  "T_nothrow = \<lparr>sizeof_T = 8, is_nothrow_move_constructible = True, is_copy_constructible = True,
     is_nothrow_move_assignable = True, is_copy_assignable = True,
     copy_throws = (\<lambda>_. False), move_throws = (\<lambda>_. False),
     copy_assign_throws = (\<lambda>_. False), move_assign_throws = (\<lambda>_. False),
     moved_from = (\<lambda>_. 0)\<rparr>"

text \<open>One full vector, object \<open>0\<close>, with the elements \<open>5, 13\<close>.\<close>

definition v_full :: Vector where
  "v_full = \<lparr>data_m = \<lparr>buffer_m = Some 0, capacity_m = 2\<rparr>, size_m = 2\<rparr>"

definition w_full :: "nat world" where
  "w_full = \<lparr>heap = [Some [Some 5, Some 13]], free_slots = 10, objs = [Some v_full], trace = []\<rparr>"


text \<open>An element type over \<open>nat\<close> without copy operations, so that relocation goes by move
  construction, whose move constructor is not declared non-throwing and throws on \<open>13\<close>;
  a moved-from object holds \<open>0\<close>.\<close>

definition T_move_only :: "nat elem_type" where
  "T_move_only = \<lparr>sizeof_T = 8, is_nothrow_move_constructible = False, is_copy_constructible = False,
     is_nothrow_move_assignable = False, is_copy_assignable = False,
     copy_throws = (\<lambda>_. False), move_throws = (\<lambda>x. x = 13),
     copy_assign_throws = (\<lambda>_. False), move_assign_throws = (\<lambda>_. False),
     moved_from = (\<lambda>_. 0)\<rparr>"

text \<open>Two vectors: object \<open>0\<close> with the elements \<open>7, 8\<close> in a block of three slots, and
  object \<open>1\<close> with the element \<open>1\<close> in a block of one slot.\<close>

definition v_small :: Vector where
  "v_small = \<lparr>data_m = \<lparr>buffer_m = Some 1, capacity_m = 1\<rparr>, size_m = 1\<rparr>"

definition w_two :: "nat world" where
  "w_two = \<lparr>heap = [Some [Some 7, Some 8, None], Some [Some 1]], free_slots = 10,
     objs = [Some v_one, Some v_small], trace = []\<rparr>"

text \<open>An element type over \<open>nat\<close> with a move constructor declared non-throwing, but a move
  assignment that is not, and with both copy operations; no operation throws.\<close>

definition T_mixed :: "nat elem_type" where
  "T_mixed = \<lparr>sizeof_T = 8, is_nothrow_move_constructible = True, is_copy_constructible = True,
     is_nothrow_move_assignable = False, is_copy_assignable = True,
     copy_throws = (\<lambda>_. False), move_throws = (\<lambda>_. False),
     copy_assign_throws = (\<lambda>_. False), move_assign_throws = (\<lambda>_. False),
     moved_from = (\<lambda>_. 0)\<rparr>"

text \<open>The worlds \<open>w_one\<close> and \<open>w_full\<close> with one more object of type \<^verbatim>\<open>T\<close>, of value \<open>9\<close>,
  in a block of its own at address \<open>1\<close>.\<close>

definition w_one_obj :: "nat world" where
  "w_one_obj = \<lparr>heap = [Some [Some 7, Some 8, None], Some [Some 9]], free_slots = 10,
     objs = [Some v_one], trace = []\<rparr>"

definition w_full_obj :: "nat world" where
  "w_full_obj = \<lparr>heap = [Some [Some 5, Some 13], Some [Some 9]], free_slots = 10,
     objs = [Some v_full], trace = []\<rparr>"

text \<open>One full vector, object \<open>0\<close>, with the element \<open>7\<close>.\<close>

definition v_single :: Vector where
  "v_single = \<lparr>data_m = \<lparr>buffer_m = Some 0, capacity_m = 1\<rparr>, size_m = 1\<rparr>"

definition w_single :: "nat world" where
  "w_single = \<lparr>heap = [Some [Some 7]], free_slots = 10, objs = [Some v_single], trace = []\<rparr>"
section \<open>Basic facts about the store\<close>

lemma bind_Normal [simp]: "bind (Normal r w) f = f r w"
  by (simp add: bind_def)

lemma bind_Raised [simp]: "bind (Raised e w) f = Raised e w"
  by (simp add: bind_def)

lemma bind_Undefined [simp]: "bind Undefined f = Undefined"
  by (simp add: bind_def)

lemma bind_eq_Normal:
  "bind m f = Normal r w' \<longleftrightarrow> (\<exists>x w1. m = Normal x w1 \<and> f x w1 = Normal r w')"
  by (cases m) simp_all

lemma bind_eq_Raised:
  "bind m f = Raised e w' \<longleftrightarrow> m = Raised e w' \<or> (\<exists>x w1. m = Normal x w1 \<and> f x w1 = Raised e w')"
  by (cases m) auto

lemma unwind_eq_Normal [simp]: "unwind m d = Normal r w' \<longleftrightarrow> m = Normal r w'"
  by (cases m) (auto simp: unwind_def split: outcome.splits)

lemma unwind_eq_Raised:
  "unwind m d = Raised e w' \<longleftrightarrow> (\<exists>w1. m = Raised e w1 \<and> d w1 = Normal () w')"
  by (cases m) (auto simp: unwind_def split: outcome.splits)

lemma log_simps [simp]:
  "heap (log e w) = heap w" "objs (log e w) = objs w" "free_slots (log e w) = free_slots w"
  "trace (log e w) = trace w @ [e]"
  by (simp_all add: log_def)

lemma get_block_log [simp]: "get_block (log e w) a = get_block w a"
  by (simp add: get_block_def)

lemma slot_log [simp]: "slot (log e w) p = slot w p"
  by (simp add: slot_def cong: option.case_cong)

lemma get_obj_log [simp]: "get_obj (log e w) i = get_obj w i"
  by (simp add: get_obj_def)

lemma set_slot_simps [simp]:
  "objs (set_slot p s w) = objs w" "free_slots (set_slot p s w) = free_slots w"
  "trace (set_slot p s w) = trace w" "length (heap (set_slot p s w)) = length (heap w)"
  by (simp_all add: set_slot_def split: option.splits)

lemma get_obj_set_slot [simp]: "get_obj (set_slot p s w) i = get_obj w i"
  by (simp add: get_obj_def)

lemma get_block_set_slot:
  "get_block (set_slot p s w) a =
     (if fst p = Some a then map_option (\<lambda>blk. blk[snd p := s]) (get_block w a) else get_block w a)"
  by (auto simp: set_slot_def get_block_def split: option.splits)

lemma slot_set_slot:
  "slot (set_slot p s w) q = (if q = p \<and> slot w p \<noteq> None then Some s else slot w q)"
  by (cases p; cases q) (auto simp: slot_def get_block_set_slot split: option.splits)

lemma upd_obj_simps [simp]:
  "heap (upd_obj i f w) = heap w" "free_slots (upd_obj i f w) = free_slots w"
  "trace (upd_obj i f w) = trace w" "length (objs (upd_obj i f w)) = length (objs w)"
  by (simp_all add: upd_obj_def)

lemma get_block_upd_obj [simp]: "get_block (upd_obj i f w) a = get_block w a"
  by (simp add: get_block_def)

lemma slot_upd_obj [simp]: "slot (upd_obj i f w) p = slot w p"
  by (simp add: slot_def cong: option.case_cong)

lemma get_obj_upd_obj:
  "get_obj (upd_obj i f w) j = (if j = i then map_option f (get_obj w i) else get_obj w j)"
  by (auto simp: get_obj_def upd_obj_def)

lemma ptr_add_simps [simp]: "fst (ptr_add p k) = fst p" "snd (ptr_add p k) = snd p + k"
  by (simp_all add: ptr_add_def)

lemma ptr_add_0 [simp]: "ptr_add p 0 = p"
  by (simp add: ptr_add_def)

lemma ptr_add_add [simp]: "ptr_add (ptr_add p j) k = ptr_add p (j + k)"
  by (simp add: ptr_add_def)

lemma GetAddress_simps [simp]: "fst (GetAddress m) = buffer_m m" "snd (GetAddress m) = 0"
  by (simp_all add: GetAddress_def)

subsection \<open>Allocation\<close>

text \<open>The block holds at most the slots asked for, and all of them when the byte count does
  not wrap.\<close>

lemma alloc_slots_le: "alloc_slots T n \<le> n"
proof (cases "sizeof_T T = 0")
  case True
  then show ?thesis by (simp add: alloc_slots_def)
next
  case False
  have "(n * sizeof_T T) mod 2 ^ 64 div sizeof_T T \<le> n * sizeof_T T div sizeof_T T"
    by (rule div_le_mono) simp
  then show ?thesis using False by (simp add: alloc_slots_def)
qed

lemma alloc_slots_0 [simp]: "alloc_slots T 0 = 0"
  by (simp add: alloc_slots_def)

lemma alloc_slots_eq:
  assumes "0 < sizeof_T T" and "n * sizeof_T T < 2 ^ 64"
  shows "alloc_slots T n = n"
  using assms by (simp add: alloc_slots_def)

lemma allocatable_slots: "allocatable T n w \<Longrightarrow> alloc_slots T n = n"
  by (simp add: allocatable_def alloc_slots_eq)

lemma Allocate_Normal:
  assumes "Allocate T n w = Normal b w'"
  shows "objs w' = objs w" "trace w' = trace w"
    "b = (if n = 0 then None else Some (length (heap w)))"
    "get_block w' a = (if n \<noteq> 0 \<and> a = length (heap w) then Some (replicate (alloc_slots T n) None)
                        else get_block w a)"
    "alloc_slots T n \<le> free_slots w" "free_slots w' = free_slots w - alloc_slots T n"
    "length (heap w') = (if n = 0 then length (heap w) else Suc (length (heap w)))"
  using assms by (auto simp: Allocate_def get_block_def nth_append split: if_splits)

lemma Allocate_Raised:
  assumes "Allocate T n w = Raised e w'"
  shows "w' = w" "e = AllocationFailure" "free_slots w < alloc_slots T n"
  using assms by (auto simp: Allocate_def split: if_splits)

lemma Allocate_defined [simp]: "Allocate T n w \<noteq> Undefined"
  by (simp add: Allocate_def)

lemma Deallocate_Normal:
  assumes "Deallocate b w = Normal u w'"
  shows "objs w' = objs w" "trace w' = trace w"
    "get_block w' a = (if b = Some a then None else get_block w a)"
    "length (heap w') = length (heap w)"
  using assms by (auto simp: Deallocate_def get_block_def split: option.splits if_splits)

lemma Deallocate_not_Raised [simp]: "Deallocate b w \<noteq> Raised e w'"
  by (simp add: Deallocate_def split: option.splits)

lemma slot_cong_block: "get_block w' (the (fst p)) = get_block w (the (fst p)) \<Longrightarrow> slot w' p = slot w p"
  by (cases "fst p") (simp_all add: slot_def)

lemma get_obj_cong: "objs w' = objs w \<Longrightarrow> get_obj w' i = get_obj w i"
  by (simp add: get_obj_def)

lemma slot_Allocate:
  assumes "Allocate T n w = Normal b w'"
  shows "slot w' p = (if n \<noteq> 0 \<and> fst p = Some (length (heap w))
                      then (if snd p < alloc_slots T n then Some None else None) else slot w p)"
  by (cases "fst p") (auto simp: slot_def Allocate_Normal(4)[OF assms])

lemma slot_Deallocate:
  assumes "Deallocate b w = Normal u w'"
  shows "slot w' p = (if fst p = b then None else slot w p)"
  by (cases "fst p") (auto simp: slot_def Deallocate_Normal(3)[OF assms])

lemma slot_fresh: "length (heap w) \<le> a \<Longrightarrow> slot w (Some a, i) = None"
  by (simp add: slot_def get_block_def)

subsection \<open>Operations of the element type\<close>

lemma place_Normal:
  assumes "place p ev r w = Normal u w'"
  shows "\<exists>x. r = Some x \<and> slot w p \<noteq> None \<and> w' = set_slot p (Some x) (log ev w)"
  using assms by (auto simp: place_def split: option.splits)

lemma place_Raised:
  assumes "place p ev r w = Raised e w'"
  shows "e = ElementOperationFailure \<and> r = None \<and> slot w p \<noteq> None \<and> w' = log ev w"
  using assms by (auto simp: place_def split: option.splits)

lemma copy_construct_at_Normal:
  assumes "copy_construct_at T dst src w = Normal u w'"
  shows "\<exists>x. slot w src = Some (Some x) \<and> \<not> copy_throws T x \<and> slot w dst \<noteq> None \<and>
             w' = set_slot dst (Some x) (log CopyCtor w)"
  using assms by (auto simp: copy_construct_at_def place_def split: option.splits if_splits)

lemma copy_construct_at_Raised:
  assumes "copy_construct_at T dst src w = Raised e w'"
  shows "e = ElementOperationFailure \<and> w' = log CopyCtor w \<and> (\<exists>x. slot w src = Some (Some x) \<and> copy_throws T x)"
  using assms by (auto simp: copy_construct_at_def place_def split: option.splits if_splits)

lemma move_construct_at_Normal:
  assumes "move_construct_at T dst src w = Normal u w'"
  shows "\<exists>x. slot w src = Some (Some x) \<and> \<not> move_throws T x \<and> slot w dst \<noteq> None \<and>
             w' = set_slot src (Some (moved_from T x)) (set_slot dst (Some x) (log MoveCtor w))"
  using assms
  by (auto simp: move_construct_at_def place_def bind_eq_Normal split: option.splits if_splits)

lemma move_construct_at_Raised:
  assumes "move_construct_at T dst src w = Raised e w'"
  shows "e = ElementOperationFailure \<and> w' = log MoveCtor w \<and> (\<exists>x. slot w src = Some (Some x) \<and> move_throws T x)"
  using assms
  by (auto simp: move_construct_at_def place_def bind_eq_Raised split: option.splits if_splits)

text \<open>A constructor call with forwarded arguments: a \<^verbatim>\<open>T&&\<close> argument refers to a live
  object, which is left moved-from; nothing else but the new object changes.\<close>

lemma construct_at_Normal:
  assumes "construct_at T p args w = Normal u w'"
  shows "slot w p \<noteq> None"
    and "\<exists>x. constructed T args w = Some x"
    and "trace w' = trace w @ [ctor_event args]"
    and "slot w p = Some None \<Longrightarrow> slot w' p = Some (constructed T args w)"
    and "q \<noteq> p \<Longrightarrow> args \<noteq> MoveOf q \<Longrightarrow> slot w' q = slot w q"
    and "args = MoveOf s \<Longrightarrow> s \<noteq> p \<Longrightarrow>
           \<exists>y. slot w s = Some (Some y) \<and> slot w' s = Some (Some (moved_from T y))"
    and "objs w' = objs w"
proof -
  have "slot w p \<noteq> None \<and> (\<exists>x. constructed T args w = Some x) \<and>
        trace w' = trace w @ [ctor_event args] \<and>
        (slot w p = Some None \<longrightarrow> slot w' p = Some (constructed T args w)) \<and>
        (q \<noteq> p \<longrightarrow> args \<noteq> MoveOf q \<longrightarrow> slot w' q = slot w q) \<and>
        (args = MoveOf s \<longrightarrow> s \<noteq> p \<longrightarrow>
           (\<exists>y. slot w s = Some (Some y) \<and> slot w' s = Some (Some (moved_from T y)))) \<and>
        objs w' = objs w"
  proof (cases args)
    case (Args r)
    then have "place p ArgsCtor r w = Normal u w'" using assms by simp
    from place_Normal[OF this] show ?thesis using Args by (auto simp: slot_set_slot)
  next
    case (CopyOf x)
    then have "place p CopyCtor (if copy_throws T x then None else Some x) w = Normal u w'"
      using assms by simp
    from place_Normal[OF this] show ?thesis using CopyOf by (auto simp: slot_set_slot split: if_splits)
  next
    case (MoveOf src)
    then have "move_construct_at T p src w = Normal u w'" using assms by simp
    from move_construct_at_Normal[OF this] show ?thesis using MoveOf by (auto simp: slot_set_slot)
  qed
  then show "slot w p \<noteq> None"
    and "\<exists>x. constructed T args w = Some x"
    and "trace w' = trace w @ [ctor_event args]"
    and "slot w p = Some None \<Longrightarrow> slot w' p = Some (constructed T args w)"
    and "q \<noteq> p \<Longrightarrow> args \<noteq> MoveOf q \<Longrightarrow> slot w' q = slot w q"
    and "args = MoveOf s \<Longrightarrow> s \<noteq> p \<Longrightarrow>
           \<exists>y. slot w s = Some (Some y) \<and> slot w' s = Some (Some (moved_from T y))"
    and "objs w' = objs w"
    by blast+
qed

lemma construct_at_Raised:
  assumes "construct_at T p args w = Raised e w'"
  shows "e = ElementOperationFailure \<and> constructed T args w = None \<and> slot w p \<noteq> None \<and>
         w' = log (ctor_event args) w"
proof (cases args)
  case (Args r)
  then have "place p ArgsCtor r w = Raised e w'" using assms by simp
  from place_Raised[OF this] show ?thesis using Args by simp
next
  case (CopyOf x)
  then have "place p CopyCtor (if copy_throws T x then None else Some x) w = Raised e w'"
    using assms by simp
  from place_Raised[OF this] show ?thesis using CopyOf by (simp split: if_splits)
next
  case (MoveOf src)
  then have r: "move_construct_at T p src w = Raised e w'" using assms by simp
  then have "slot w p \<noteq> None"
    by (auto simp: move_construct_at_def place_def bind_eq_Raised split: option.splits)
  then show ?thesis using move_construct_at_Raised[OF r] MoveOf by auto
qed

lemma copy_assign_at_Normal:
  assumes "copy_assign_at T dst src w = Normal u w'"
  shows "\<exists>x y. slot w src = Some (Some x) \<and> slot w dst = Some (Some y) \<and> \<not> copy_assign_throws T x \<and>
             w' = set_slot dst (Some x) (log CopyAssign w)"
  using assms by (auto simp: copy_assign_at_def split: option.splits if_splits)

lemma move_assign_at_Normal:
  assumes "move_assign_at T dst src w = Normal u w'"
  shows "\<exists>x y. slot w src = Some (Some x) \<and> slot w dst = Some (Some y) \<and> \<not> move_assign_throws T x \<and>
             w' = set_slot src (Some (moved_from T x)) (set_slot dst (Some x) (log MoveAssign w))"
  using assms by (auto simp: move_assign_at_def split: option.splits if_splits)

lemma destroy_at_Normal:
  assumes "destroy_at p w = Normal u w'"
  shows "\<exists>x. slot w p = Some (Some x) \<and> w' = set_slot p None (log Dtor w)"
  using assms by (auto simp: destroy_at_def split: option.splits)

lemma destroy_at_not_Raised [simp]: "destroy_at p w \<noteq> Raised e w'"
  by (simp add: destroy_at_def split: option.splits)

subsection \<open>Loops\<close>

lemma destroy_n_not_Raised [simp]: "destroy_n p n w \<noteq> Raised e w'"
  by (induction n arbitrary: p w) (auto simp: bind_eq_Raised)

lemma destroy_n_Normal:
  assumes "destroy_n p n w = Normal u w'"
  shows "objs w' = objs w \<and> free_slots w' = free_slots w \<and> length (heap w') = length (heap w) \<and>
         trace w' = trace w @ replicate n Dtor \<and>
         (\<forall>q. slot w' q = (if in_range p n q then Some None else slot w q)) \<and>
         (\<forall>q. in_range p n q \<longrightarrow> (\<exists>x. slot w q = Some (Some x)))"
  using assms
proof (induction n arbitrary: p w)
  case 0
  then show ?case by (auto simp: in_range_def)
next
  case (Suc n)
  from Suc.prems obtain w1 where d: "destroy_at p w = Normal () w1"
    and r: "destroy_n (ptr_add p 1) n w1 = Normal u w'"
    by (auto simp: bind_eq_Normal)
  from destroy_at_Normal[OF d] obtain x where x: "slot w p = Some (Some x)"
    and w1: "w1 = set_slot p None (log Dtor w)" by blast
  note ih = Suc.IH[OF r]
  have "slot w' q = (if in_range p (Suc n) q then Some None else slot w q)" for q
  proof -
    have "slot w' q = (if in_range (ptr_add p 1) n q then Some None else slot w1 q)"
      using ih by blast
    also have "\<dots> = (if in_range p (Suc n) q then Some None else slot w q)"
      using x by (cases p; cases q) (auto simp: w1 slot_set_slot in_range_def)
    finally show ?thesis .
  qed
  moreover have "\<exists>y. slot w q = Some (Some y)" if "in_range p (Suc n) q" for q
  proof (cases "q = p")
    case True
    then show ?thesis using x by simp
  next
    case False
    then have "in_range (ptr_add p 1) n q"
      using that by (cases p; cases q) (auto simp: in_range_def)
    then obtain y where "slot w1 q = Some (Some y)" using ih by blast
    then show ?thesis using False by (simp add: w1 slot_set_slot split: if_splits)
  qed
  moreover have "trace w' = trace w @ replicate (Suc n) Dtor"
    using ih by (simp add: w1 replicate_append_same)
  ultimately show ?case using ih by (simp add: w1)
qed

lemma uninitialized_copy_Normal:
  assumes "uninitialized_n (copy_construct_at T) first d i r w = Normal u w'"
    and "fst first \<noteq> fst d \<or> snd first + r \<le> snd d"
  shows "objs w' = objs w \<and> free_slots w' = free_slots w \<and> length (heap w') = length (heap w) \<and>
         trace w' = trace w @ replicate r CopyCtor \<and>
         (\<forall>q. slot w' q = (if in_range (ptr_add d i) r q
                            then slot w (fst first, snd first + (snd q - snd d)) else slot w q)) \<and>
         (\<forall>q. in_range (ptr_add first i) r q \<longrightarrow> (\<exists>x. slot w q = Some (Some x) \<and> \<not> copy_throws T x))"
  using assms
proof (induction r arbitrary: i w)
  case 0
  then show ?case by (auto simp: in_range_def)
next
  case (Suc r)
  from Suc.prems(1) obtain w1 where c: "copy_construct_at T (ptr_add d i) (ptr_add first i) w = Normal () w1"
    and r: "uninitialized_n (copy_construct_at T) first d (Suc i) r w1 = Normal u w'"
    by (auto split: outcome.splits)
  from copy_construct_at_Normal[OF c] obtain x where x: "slot w (ptr_add first i) = Some (Some x)"
    "\<not> copy_throws T x" "slot w (ptr_add d i) \<noteq> None"
    and w1: "w1 = set_slot (ptr_add d i) (Some x) (log CopyCtor w)" by blast
  have dj: "fst first \<noteq> fst d \<or> snd first + r \<le> snd d" using Suc.prems(2) by auto
  note ih = Suc.IH[OF r dj]
  have "slot w' q = (if in_range (ptr_add d i) (Suc r) q
                     then slot w (fst first, snd first + (snd q - snd d)) else slot w q)" for q
  proof -
    have "slot w' q = (if in_range (ptr_add d (Suc i)) r q
                       then slot w1 (fst first, snd first + (snd q - snd d)) else slot w1 q)"
      using ih by blast
    also have "\<dots> = (if in_range (ptr_add d i) (Suc r) q
                     then slot w (fst first, snd first + (snd q - snd d)) else slot w q)"
      using x Suc.prems(2)
      by (cases d; cases q; cases first) (auto simp: w1 slot_set_slot in_range_def ptr_add_def)
    finally show ?thesis .
  qed
  moreover have "\<exists>y. slot w q = Some (Some y) \<and> \<not> copy_throws T y" if "in_range (ptr_add first i) (Suc r) q" for q
  proof (cases "q = ptr_add first i")
    case True
    then show ?thesis using x by auto
  next
    case False
    then have ir: "in_range (ptr_add first (Suc i)) r q"
      using that by (cases q; cases first) (auto simp: in_range_def ptr_add_def)
    then obtain y where "slot w1 q = Some (Some y)" "\<not> copy_throws T y" using ih by blast
    moreover have "q \<noteq> ptr_add d i"
      using ir Suc.prems(2) by (cases q; cases first; cases d) (auto simp: in_range_def ptr_add_def)
    ultimately show ?thesis by (auto simp: w1 slot_set_slot)
  qed
  moreover have "trace w' = trace w @ replicate (Suc r) CopyCtor"
    using ih by (simp add: w1 replicate_append_same)
  ultimately show ?case using ih by (simp add: w1)
qed

lemma uninitialized_copy_Raised:
  assumes "uninitialized_n (copy_construct_at T) first d i r w = Raised e w'"
  shows "e = ElementOperationFailure \<and> objs w' = objs w \<and> free_slots w' = free_slots w \<and>
         length (heap w') = length (heap w) \<and>
         (\<forall>q. fst q \<noteq> fst d \<longrightarrow> slot w' q = slot w q) \<and>
         (\<forall>q. slot w' q = None \<longleftrightarrow> slot w q = None)"
  using assms
proof (induction r arbitrary: i w)
  case 0
  then show ?case by simp
next
  case (Suc r)
  show ?case
  proof (cases "copy_construct_at T (ptr_add d i) (ptr_add first i) w")
    case (Normal u1 w1)
    then have r: "uninitialized_n (copy_construct_at T) first d (Suc i) r w1 = Raised e w'"
      using Suc.prems by simp
    from copy_construct_at_Normal[OF Normal] obtain x
      where v: "slot w (ptr_add d i) \<noteq> None"
        and w1: "w1 = set_slot (ptr_add d i) (Some x) (log CopyCtor w)" by blast
    have "slot w1 q = None \<longleftrightarrow> slot w q = None" for q
      using v by (simp add: w1 slot_set_slot)
    moreover have "fst q \<noteq> fst d \<longrightarrow> slot w1 q = slot w q" for q
      by (auto simp: w1 slot_set_slot)
    ultimately show ?thesis using Suc.IH[OF r] by (simp add: w1)
  next
    case (Raised e1 w1)
    then obtain u2 where dn: "destroy_n d i w1 = Normal u2 w'" and e: "e1 = e"
      using Suc.prems by (auto split: outcome.splits)
    from copy_construct_at_Raised[OF Raised] have w1: "w1 = log CopyCtor w" "e1 = ElementOperationFailure"
      by auto
    note dn' = destroy_n_Normal[OF dn]
    from dn' have sl: "slot w' q = (if in_range d i q then Some None else slot w1 q)" for q
      by blast
    from dn' have lv: "in_range d i q \<Longrightarrow> \<exists>x. slot w1 q = Some (Some x)" for q
      by blast
    have "slot w' q = None \<longleftrightarrow> slot w q = None" for q
      using lv[of q] by (auto simp: sl w1)
    moreover have "fst q \<noteq> fst d \<longrightarrow> slot w' q = slot w q" for q
      by (simp add: sl w1 in_range_def)
    ultimately show ?thesis using dn' e w1 by simp
  next
    case Undefined
    then show ?thesis using Suc.prems by simp
  qed
qed

lemma in_range_Suc:
  "in_range (ptr_add p i) (Suc r) q \<longleftrightarrow> q = ptr_add p i \<or> in_range (ptr_add p (Suc i)) r q"
  by (cases p; cases q) (auto simp: in_range_def ptr_add_def)

lemma in_range_Suc_neq: "in_range (ptr_add p (Suc i)) r q \<Longrightarrow> q \<noteq> ptr_add p i"
  by (cases p; cases q) (auto simp: in_range_def ptr_add_def)

lemma in_range_Suc_self [simp]: "\<not> in_range (ptr_add p (Suc i)) r (ptr_add p i)"
  by (simp add: in_range_def)

lemma disjoint_ranges:
  assumes "fst first \<noteq> fst d \<or> snd first + Suc r \<le> snd d"
  shows "ptr_add first i \<noteq> ptr_add d i"
    and "\<not> in_range (ptr_add d (Suc i)) r (ptr_add first i)"
    and "\<not> in_range (ptr_add first (Suc i)) r (ptr_add d i)"
    and "in_range (ptr_add d (Suc i)) r q \<Longrightarrow> (fst first, snd first + (snd q - snd d)) \<noteq> ptr_add first i"
    and "in_range (ptr_add d (Suc i)) r q \<Longrightarrow> (fst first, snd first + (snd q - snd d)) \<noteq> ptr_add d i"
    and "(fst first, snd first + (snd (ptr_add d i) - snd d)) = ptr_add first i"
  using assms by (cases first; cases d; cases q; auto simp: in_range_def ptr_add_def)+

lemma uninitialized_move_Normal:
  assumes "uninitialized_n (move_construct_at T) first d i r w = Normal u w'"
    and "fst first \<noteq> fst d \<or> snd first + r \<le> snd d"
  shows "objs w' = objs w \<and> free_slots w' = free_slots w \<and> length (heap w') = length (heap w) \<and>
         trace w' = trace w @ replicate r MoveCtor \<and>
         (\<forall>q. slot w' q = (if in_range (ptr_add d i) r q
                            then slot w (fst first, snd first + (snd q - snd d))
                            else if in_range (ptr_add first i) r q
                            then map_option (map_option (moved_from T)) (slot w q) else slot w q)) \<and>
         (\<forall>q. in_range (ptr_add first i) r q \<longrightarrow> (\<exists>x. slot w q = Some (Some x) \<and> \<not> move_throws T x))"
  using assms
proof (induction r arbitrary: i w)
  case 0
  then show ?case by (auto simp: in_range_def)
next
  case (Suc r)
  from Suc.prems(1) obtain w1 where c: "move_construct_at T (ptr_add d i) (ptr_add first i) w = Normal () w1"
    and r: "uninitialized_n (move_construct_at T) first d (Suc i) r w1 = Normal u w'"
    by (auto split: outcome.splits)
  from move_construct_at_Normal[OF c] obtain x where x: "slot w (ptr_add first i) = Some (Some x)"
    "\<not> move_throws T x" "slot w (ptr_add d i) \<noteq> None"
    and w1: "w1 = set_slot (ptr_add first i) (Some (moved_from T x)) (set_slot (ptr_add d i) (Some x) (log MoveCtor w))"
    by blast
  have dj: "fst first \<noteq> fst d \<or> snd first + r \<le> snd d" using Suc.prems(2) by auto
  note ih = Suc.IH[OF r dj]
  note ds = disjoint_ranges[OF Suc.prems(2)]
  have ihs: "slot w' q = (if in_range (ptr_add d (Suc i)) r q
                       then slot w1 (fst first, snd first + (snd q - snd d))
                       else if in_range (ptr_add first (Suc i)) r q
                       then map_option (map_option (moved_from T)) (slot w1 q) else slot w1 q)" for q
    using ih[THEN conjunct2, THEN conjunct2, THEN conjunct2, THEN conjunct2, THEN conjunct1] by (rule spec)
  have ihl: "in_range (ptr_add first (Suc i)) r q \<Longrightarrow> \<exists>x. slot w1 q = Some (Some x) \<and> \<not> move_throws T x" for q
    using ih[THEN conjunct2, THEN conjunct2, THEN conjunct2, THEN conjunct2, THEN conjunct2] by blast
  have sl1: "slot w1 z = (if z = ptr_add first i then Some (Some (moved_from T x))
                          else if z = ptr_add d i then Some (Some x) else slot w z)" for z
    using x by (simp add: w1 slot_set_slot)
  have "slot w' q = (if in_range (ptr_add d i) (Suc r) q
                     then slot w (fst first, snd first + (snd q - snd d))
                     else if in_range (ptr_add first i) (Suc r) q
                     then map_option (map_option (moved_from T)) (slot w q) else slot w q)" for q
  proof -
    consider (dst0) "q = ptr_add d i" | (src0) "q = ptr_add first i"
      | (dst) "in_range (ptr_add d (Suc i)) r q"
      | (src) "in_range (ptr_add first (Suc i)) r q" "\<not> in_range (ptr_add d (Suc i)) r q"
      | (other) "q \<noteq> ptr_add d i" "q \<noteq> ptr_add first i" "\<not> in_range (ptr_add d (Suc i)) r q"
           "\<not> in_range (ptr_add first (Suc i)) r q"
      by blast
    then show ?thesis
    proof cases
      case dst0
      have "slot w' q = slot w1 q"
        unfolding ihs using ds(3)[of i] by (simp add: dst0)
      also have "\<dots> = Some (Some x)" using ds(1)[of i] by (simp add: sl1 dst0)
      finally show ?thesis using x(1) ds(6)[of i] by (simp add: in_range_Suc dst0)
    next
      case src0
      have "slot w' q = slot w1 q"
        unfolding ihs using ds(2)[of i] by (simp add: src0)
      also have "\<dots> = Some (Some (moved_from T x))" by (simp add: sl1 src0)
      finally show ?thesis using x(1) ds(1)[of i] ds(2)[of i] by (simp add: in_range_Suc src0)
    next
      case dst
      have "slot w' q = slot w1 (fst first, snd first + (snd q - snd d))"
        unfolding ihs using dst by simp
      also have "\<dots> = slot w (fst first, snd first + (snd q - snd d))"
        using ds(4)[OF dst] ds(5)[OF dst] by (simp add: sl1)
      finally show ?thesis using dst by (simp add: in_range_Suc)
    next
      case src
      have n1: "q \<noteq> ptr_add first i" using src(1) by (rule in_range_Suc_neq)
      have n2: "q \<noteq> ptr_add d i" using src(1) ds(3)[of i] by auto
      have "slot w' q = map_option (map_option (moved_from T)) (slot w1 q)"
        unfolding ihs using src by simp
      also have "\<dots> = map_option (map_option (moved_from T)) (slot w q)"
        using n1 n2 by (simp add: sl1)
      finally show ?thesis using src n2 by (simp add: in_range_Suc)
    next
      case other
      have "slot w' q = slot w1 q" unfolding ihs using other by simp
      also have "\<dots> = slot w q" using other by (simp add: sl1)
      finally show ?thesis using other by (simp add: in_range_Suc)
    qed
  qed
  moreover have "\<exists>y. slot w q = Some (Some y) \<and> \<not> move_throws T y" if "in_range (ptr_add first i) (Suc r) q" for q
  proof (cases "q = ptr_add first i")
    case True
    then show ?thesis using x by simp
  next
    case False
    then have ir: "in_range (ptr_add first (Suc i)) r q"
      using that by (simp add: in_range_Suc)
    then obtain y where y: "slot w1 q = Some (Some y)" "\<not> move_throws T y" using ihl by blast
    have "q \<noteq> ptr_add d i" using ir ds(3)[of i] by auto
    then have "slot w1 q = slot w q" using False by (simp add: sl1)
    then show ?thesis using y by metis
  qed
  moreover have "trace w' = trace w @ replicate (Suc r) MoveCtor"
    using ih by (simp add: w1 replicate_append_same)
  ultimately show ?case using ih by (simp add: w1)
qed

lemma uninitialized_move_Raised:
  assumes "uninitialized_n (move_construct_at T) first d i r w = Raised e w'"
  shows "\<exists>x. move_throws T x"
  using assms
proof (induction r arbitrary: i w)
  case 0
  then show ?case by simp
next
  case (Suc r)
  show ?case
  proof (cases "move_construct_at T (ptr_add d i) (ptr_add first i) w")
    case (Normal u1 w1)
    then show ?thesis using Suc by simp
  next
    case (Raised e1 w1)
    then show ?thesis using move_construct_at_Raised[OF Raised] by blast
  next
    case Undefined
    then show ?thesis using Suc.prems by simp
  qed
qed

lemma vector_inv_null:
  assumes "vector_inv w v" and "buffer_m (data_m v) = None"
  shows "size_m v = 0" "capacity_m (data_m v) = 0"
  using assms by (auto simp: vector_inv_def)

lemma vector_inv_block:
  assumes "vector_inv w v" and "buffer_m (data_m v) = Some a"
  shows "a < length (heap w)"
    and "size_m v \<le> capacity_m (data_m v)"
    and "i < size_m v \<Longrightarrow> \<exists>x. slot w (Some a, i) = Some (Some x)"
    and "size_m v \<le> i \<Longrightarrow> i < capacity_m (data_m v) \<Longrightarrow> slot w (Some a, i) = Some None"
    and "capacity_m (data_m v) \<le> i \<Longrightarrow> slot w (Some a, i) = None"
proof -
  from assms obtain blk where b: "get_block w a = Some blk" "length blk = capacity_m (data_m v)"
    and lv: "list_all (\<lambda>s. s \<noteq> None) (take (size_m v) blk)"
    and rw: "list_all (\<lambda>s. s = None) (drop (size_m v) blk)"
    and le: "size_m v \<le> capacity_m (data_m v)"
    by (auto simp: vector_inv_def split: option.splits)
  show "a < length (heap w)" using b(1) by (auto simp: get_block_def split: if_splits)
  show "size_m v \<le> capacity_m (data_m v)" by (rule le)
  show "\<exists>x. slot w (Some a, i) = Some (Some x)" if "i < size_m v"
  proof -
    have "take (size_m v) blk ! i \<noteq> None"
      using lv that le b(2) by (simp add: list_all_length)
    then show ?thesis using that le b by (auto simp: slot_def)
  qed
  show "slot w (Some a, i) = Some None" if "size_m v \<le> i" "i < capacity_m (data_m v)"
  proof -
    have a: "\<forall>n < capacity_m (data_m v) - size_m v. blk ! (size_m v + n) = None"
      using rw b(2) by (simp add: list_all_length)
    have "i - size_m v < capacity_m (data_m v) - size_m v" using that by arith
    with a have "blk ! (size_m v + (i - size_m v)) = None" by blast
    then have "blk ! i = None" using that by simp
    then show ?thesis using that b by (simp add: slot_def)
  qed
  show "slot w (Some a, i) = None" if "capacity_m (data_m v) \<le> i"
    using that b by (simp add: slot_def)
qed

lemma vector_inv_live:
  assumes "vector_inv w v" and "i < size_m v"
  shows "\<exists>x. slot w (ptr_add (GetAddress (data_m v)) i) = Some (Some x)"
proof (cases "buffer_m (data_m v)")
  case None
  then show ?thesis using vector_inv_null[OF assms(1)] assms(2) by simp
next
  case (Some a)
  then show ?thesis using vector_inv_block(3)[OF assms(1) Some assms(2)]
    by (simp add: ptr_add_def GetAddress_def)
qed

lemma vector_inv_fresh:
  assumes "vector_inv w v"
  shows "buffer_m (data_m v) \<noteq> Some (length (heap w))"
  using vector_inv_block(1)[OF assms] by auto

text \<open>The element read in a world where the object is \<open>v\<close>.\<close>

lemma elem_eq:
  assumes "get_obj w this = Some v" and "i < size_m v" and "size_m v \<le> capacity_m (data_m v)"
  shows "elem w this i = (case slot w (buffer_m (data_m v), i) of Some (Some x) \<Rightarrow> Some x | _ \<Rightarrow> None)"
  using assms by (simp add: elem_def Vector_index_def RawMemory_index_def ptr_add_def GetAddress_def)

lemma contents_eqI:
  assumes "get_obj w' a = Some v'" and "get_obj w b = Some v" and "size_m v' = size_m v"
    and "size_m v \<le> capacity_m (data_m v)" and "size_m v' \<le> capacity_m (data_m v')"
    and "\<And>i. i < size_m v \<Longrightarrow> slot w' (buffer_m (data_m v'), i) = slot w (buffer_m (data_m v), i)"
  shows "contents w' a = contents w b"
proof -
  have "elem w' a i = elem w b i" if "i < size_m v" for i
    using that assms by (simp add: elem_eq)
  then show ?thesis using assms(1,2,3) by (simp add: contents_def)
qed

text \<open>The choice between moving and copying the elements into a new block.\<close>

lemma relocate_Normal:
  assumes "(if mv then uninitialized_move_n T first n d w else uninitialized_copy_n T first n d w) = Normal u w'"
    and "fst first \<noteq> fst d"
  shows "objs w' = objs w" "free_slots w' = free_slots w" "length (heap w') = length (heap w)"
    "trace w' = trace w @ replicate n (if mv then MoveCtor else CopyCtor)"
    "fst q \<noteq> fst first \<Longrightarrow> slot w' q = (if in_range d n q then slot w (fst first, snd first + (snd q - snd d)) else slot w q)"
    "in_range first n q \<Longrightarrow> \<exists>x. slot w q = Some (Some x)"
    "in_range first n q \<Longrightarrow> \<exists>x. slot w' q = Some (Some x)"
proof -
  have dj: "fst first \<noteq> fst d \<or> snd first + n \<le> snd d" using assms(2) by simp
  have all: "objs w' = objs w \<and> free_slots w' = free_slots w \<and> length (heap w') = length (heap w) \<and>
    trace w' = trace w @ replicate n (if mv then MoveCtor else CopyCtor) \<and>
    (fst q \<noteq> fst first \<longrightarrow> slot w' q = (if in_range d n q then slot w (fst first, snd first + (snd q - snd d)) else slot w q)) \<and>
    (in_range first n q \<longrightarrow> (\<exists>x. slot w q = Some (Some x)) \<and> (\<exists>x. slot w' q = Some (Some x)))"
  proof (cases mv)
    case True
    then have m: "uninitialized_n (move_construct_at T) first d 0 n w = Normal u w'"
      using assms(1) by (simp add: uninitialized_move_n_def)
    note f = uninitialized_move_Normal[OF m dj]
    have nd: "in_range first n q \<Longrightarrow> \<not> in_range d n q"
      using assms(2) by (auto simp: in_range_def)
    from f have sl: "slot w' q = (if in_range (ptr_add d 0) n q
                            then slot w (fst first, snd first + (snd q - snd d))
                            else if in_range (ptr_add first 0) n q
                            then map_option (map_option (moved_from T)) (slot w q) else slot w q)"
      by blast
    from f have lv: "in_range (ptr_add first 0) n q \<longrightarrow> (\<exists>x. slot w q = Some (Some x) \<and> \<not> move_throws T x)"
      by blast
    have "fst q \<noteq> fst first \<Longrightarrow> \<not> in_range first n q" by (simp add: in_range_def)
    then show ?thesis using f True sl lv nd by auto
  next
    case False
    then have m: "uninitialized_n (copy_construct_at T) first d 0 n w = Normal u w'"
      using assms(1) by (simp add: uninitialized_copy_n_def)
    note f = uninitialized_copy_Normal[OF m dj]
    have nd: "in_range first n q \<Longrightarrow> \<not> in_range d n q"
      using assms(2) by (auto simp: in_range_def)
    from f have sl: "slot w' q = (if in_range (ptr_add d 0) n q
                            then slot w (fst first, snd first + (snd q - snd d)) else slot w q)"
      by blast
    from f have lv: "in_range (ptr_add first 0) n q \<longrightarrow> (\<exists>x. slot w q = Some (Some x) \<and> \<not> copy_throws T x)"
      by blast
    show ?thesis using f False sl lv nd by auto
  qed
  show "objs w' = objs w" "free_slots w' = free_slots w" "length (heap w') = length (heap w)"
    "trace w' = trace w @ replicate n (if mv then MoveCtor else CopyCtor)"
    "fst q \<noteq> fst first \<Longrightarrow> slot w' q = (if in_range d n q then slot w (fst first, snd first + (snd q - snd d)) else slot w q)"
    "in_range first n q \<Longrightarrow> \<exists>x. slot w q = Some (Some x)"
    "in_range first n q \<Longrightarrow> \<exists>x. slot w' q = Some (Some x)"
    using all by blast+
qed

lemma RawMemory_ctor_Normal:
  assumes "RawMemory_ctor T n w = Normal m w'"
  shows "m = \<lparr>buffer_m = (if n = 0 then None else Some (length (heap w))), capacity_m = n\<rparr>"
    and "objs w' = objs w" and "trace w' = trace w"
    and "slot w' p = (if n \<noteq> 0 \<and> fst p = Some (length (heap w))
                      then (if snd p < alloc_slots T n then Some None else None) else slot w p)"
    and "alloc_slots T n \<le> free_slots w"
proof -
  from assms obtain b where a: "Allocate T n w = Normal b w'" and m: "m = \<lparr>buffer_m = b, capacity_m = n\<rparr>"
    by (auto simp: RawMemory_ctor_def bind_eq_Normal)
  show "m = \<lparr>buffer_m = (if n = 0 then None else Some (length (heap w))), capacity_m = n\<rparr>"
    using Allocate_Normal(3)[OF a] m by simp
  show "objs w' = objs w" "trace w' = trace w" "alloc_slots T n \<le> free_slots w"
    using Allocate_Normal[OF a] by simp_all
  show "slot w' p = (if n \<noteq> 0 \<and> fst p = Some (length (heap w))
                      then (if snd p < alloc_slots T n then Some None else None) else slot w p)"
    by (rule slot_Allocate[OF a])
qed

text \<open>The slots of a block whose byte count did not wrap.\<close>

lemma RawMemory_ctor_exact:
  assumes "RawMemory_ctor T n w = Normal m w'" and "allocatable T n w"
  shows "slot w' p = (if n \<noteq> 0 \<and> fst p = Some (length (heap w))
                      then (if snd p < n then Some None else None) else slot w p)"
  using RawMemory_ctor_Normal(4)[OF assms(1), of p] allocatable_slots[OF assms(2)] by simp

text \<open>A slot of the new block is in the range asked for, and is raw memory.\<close>

lemma RawMemory_ctor_slot:
  assumes "RawMemory_ctor T n w = Normal m w'" and "slot w' (Some (length (heap w)), i) \<noteq> None"
  shows "i < n" and "slot w' (Some (length (heap w)), i) = Some None"
proof -
  have "i < alloc_slots T n \<and> slot w' (Some (length (heap w)), i) = Some None"
    using RawMemory_ctor_Normal(4)[OF assms(1), of "(Some (length (heap w)), i)"] assms(2)
    by (auto simp: slot_fresh split: if_splits)
  then show "i < n" and "slot w' (Some (length (heap w)), i) = Some None"
    using alloc_slots_le[of T n] by simp_all
qed

lemma RawMemory_dtor_Normal:
  assumes "RawMemory_dtor m w = Normal u w'"
  shows "objs w' = objs w" and "trace w' = trace w"
    and "slot w' p = (if fst p = buffer_m m then None else slot w p)"
  using Deallocate_Normal[of "buffer_m m" w u w'] slot_Deallocate[of "buffer_m m" w u w' p] assms
  by (simp_all add: RawMemory_dtor_def)

lemma RawMemory_Swap_eq [simp]: "RawMemory_Swap a b = (b, a)"
  by (simp add: RawMemory_Swap_def)

lemma Reserve_noop:
  assumes "get_obj w this = Some v" and "k \<le> capacity_m (data_m v)"
  shows "Reserve T this k w = Normal () w"
  using assms by (simp add: Reserve_def)

lemma Reserve_Normal:
  assumes g: "get_obj w this = Some v" and inv: "vector_inv w v"
    and k: "capacity_m (data_m v) < k" and r: "Reserve T this k w = Normal u w'"
  shows "get_obj w' this = Some (v\<lparr>data_m := \<lparr>buffer_m = Some (length (heap w)), capacity_m = k\<rparr>\<rparr>)"
    and "i < size_m v \<Longrightarrow> slot w' (Some (length (heap w)), i) = slot w (buffer_m (data_m v), i)"
    and "size_m v \<le> i \<Longrightarrow> slot w' (Some (length (heap w)), i) = (if i < alloc_slots T k then Some None else None)"
    and "trace w' = trace w @ replicate (size_m v)
           (if is_nothrow_move_constructible T \<or> \<not> is_copy_constructible T then MoveCtor else CopyCtor)
           @ replicate (size_m v) Dtor"
proof -
  let ?mv = "is_nothrow_move_constructible T \<or> \<not> is_copy_constructible T"
  let ?old = "GetAddress (data_m v)"
  let ?na = "length (heap w)"
  from r g k obtain new_data w1 w2 w3 where
    a: "RawMemory_ctor T k w = Normal new_data w1"
    and rel: "(if ?mv then uninitialized_move_n T ?old (size_m v) (GetAddress new_data) w1
              else uninitialized_copy_n T ?old (size_m v) (GetAddress new_data) w1) = Normal () w2"
    and dn: "destroy_n ?old (size_m v) w2 = Normal () w3"
    and de: "RawMemory_dtor (snd (RawMemory_Swap (data_m v) new_data))
               (upd_obj this (\<lambda>x. x\<lparr>data_m := fst (RawMemory_Swap (data_m v) new_data)\<rparr>) w3) = Normal u w'"
    by (auto simp: Reserve_def bind_eq_Normal)
  have k0: "k \<noteq> 0" using k by simp
  have nd: "new_data = \<lparr>buffer_m = Some ?na, capacity_m = k\<rparr>"
    using RawMemory_ctor_Normal(1)[OF a] k0 by simp
  have fr: "buffer_m (data_m v) \<noteq> Some ?na" by (rule vector_inv_fresh[OF inv])
  have dj: "fst ?old \<noteq> fst (GetAddress new_data)" using fr by (simp add: nd)
  note rl = relocate_Normal[OF rel dj]
  note dl = destroy_n_Normal[OF dn]
  note el = RawMemory_dtor_Normal[OF de]
  have o3: "objs w3 = objs w" using dl rl(1) RawMemory_ctor_Normal(2)[OF a] by simp
  show "get_obj w' this = Some (v\<lparr>data_m := \<lparr>buffer_m = Some ?na, capacity_m = k\<rparr>\<rparr>)"
    using g get_obj_cong[OF o3, of this]
    by (simp add: get_obj_cong[OF el(1)] get_obj_upd_obj nd)
  have s3: "slot w' (Some ?na, j) = slot w2 (Some ?na, j)" for j
  proof -
    have "slot w' (Some ?na, j) = slot w3 (Some ?na, j)"
      using fr by (simp add: el(3))
    also have "\<dots> = slot w2 (Some ?na, j)"
      using dl fr by (simp add: in_range_def)
    finally show ?thesis .
  qed
  have s2: "slot w2 (Some ?na, j) =
      (if j < size_m v then slot w1 (buffer_m (data_m v), j) else slot w1 (Some ?na, j))" for j
    using rl(5)[of "(Some ?na, j)"] fr by (auto simp: nd in_range_def GetAddress_def)
  have s1: "slot w1 p = (if fst p = Some ?na then (if snd p < alloc_slots T k then Some None else None) else slot w p)" for p
    using RawMemory_ctor_Normal(4)[OF a, of p] k0 by simp
  show "slot w' (Some ?na, i) = slot w (buffer_m (data_m v), i)" if "i < size_m v"
    using that fr by (simp add: s3 s2 s1)
  show "slot w' (Some ?na, i) = (if i < alloc_slots T k then Some None else None)" if "size_m v \<le> i"
    using that by (simp add: s3 s2 s1)
  show "trace w' = trace w @ replicate (size_m v) (if ?mv then MoveCtor else CopyCtor) @ replicate (size_m v) Dtor"
    using el(2) dl rl(4) RawMemory_ctor_Normal(3)[OF a] by simp
qed

subsection \<open>Definedness\<close>

lemma destroy_n_defined:
  assumes "\<And>q. in_range p n q \<Longrightarrow> \<exists>x. slot w q = Some (Some x)"
  shows "\<exists>w'. destroy_n p n w = Normal () w'"
  using assms
proof (induction n arbitrary: p w)
  case 0
  then show ?case by simp
next
  case (Suc n)
  have "in_range p (Suc n) p" by (simp add: in_range_def)
  then obtain x where x: "slot w p = Some (Some x)" using Suc.prems by blast
  let ?w1 = "set_slot p None (log Dtor w)"
  have d: "destroy_at p w = Normal () ?w1" using x by (simp add: destroy_at_def)
  have "\<exists>y. slot ?w1 q = Some (Some y)" if "in_range (ptr_add p 1) n q" for q
  proof -
    have "q \<noteq> p" using that by (cases p; cases q) (auto simp: in_range_def)
    moreover have "in_range p (Suc n) q" using that by (cases p; cases q) (auto simp: in_range_def)
    ultimately show ?thesis using Suc.prems[of q] by (simp add: slot_set_slot)
  qed
  from Suc.IH[of "ptr_add p 1" ?w1, OF this] show ?case by (simp add: d)
qed

lemma uninitialized_copy_defined:
  assumes "\<And>q. in_range (ptr_add first i) r q \<Longrightarrow> \<exists>x. slot w q = Some (Some x)"
    and "\<And>q. in_range (ptr_add d i) r q \<Longrightarrow> slot w q \<noteq> None"
    and "\<And>q. in_range d i q \<Longrightarrow> \<exists>x. slot w q = Some (Some x)"
    and "fst first \<noteq> fst d \<or> snd first + r \<le> snd d"
  shows "uninitialized_n (copy_construct_at T) first d i r w \<noteq> Undefined"
  using assms
proof (induction r arbitrary: i w)
  case 0
  then show ?case by simp
next
  case (Suc r)
  have "in_range (ptr_add first i) (Suc r) (ptr_add first i)" by (simp add: in_range_def)
  then obtain x where x: "slot w (ptr_add first i) = Some (Some x)" using Suc.prems(1) by blast
  have "in_range (ptr_add d i) (Suc r) (ptr_add d i)" by (simp add: in_range_def)
  then have v: "slot w (ptr_add d i) \<noteq> None" using Suc.prems(2) by blast
  note ds = disjoint_ranges[OF Suc.prems(4)]
  show ?case
  proof (cases "copy_throws T x")
    case True
    then have c: "copy_construct_at T (ptr_add d i) (ptr_add first i) w = Raised ElementOperationFailure (log CopyCtor w)"
      using x v by (auto simp: copy_construct_at_def place_def)
    have "\<exists>w'. destroy_n d i (log CopyCtor w) = Normal () w'"
      using Suc.prems(3) by (intro destroy_n_defined) simp
    then show ?thesis by (auto simp: c)
  next
    case False
    let ?w1 = "set_slot (ptr_add d i) (Some x) (log CopyCtor w)"
    have c: "copy_construct_at T (ptr_add d i) (ptr_add first i) w = Normal () ?w1"
      using x v False by (auto simp: copy_construct_at_def place_def)
    have sl1: "slot ?w1 z = (if z = ptr_add d i then Some (Some x) else slot w z)" for z
      using v by (simp add: slot_set_slot)
    have "uninitialized_n (copy_construct_at T) first d (Suc i) r ?w1 \<noteq> Undefined"
    proof (rule Suc.IH)
      fix q assume a: "in_range (ptr_add first (Suc i)) r q"
      then have "q \<noteq> ptr_add d i" using ds(3)[of i] by auto
      moreover have "in_range (ptr_add first i) (Suc r) q" using a by (simp add: in_range_Suc)
      ultimately show "\<exists>x. slot ?w1 q = Some (Some x)" using Suc.prems(1)[of q] by (simp add: sl1)
    next
      fix q assume a: "in_range (ptr_add d (Suc i)) r q"
      then have "in_range (ptr_add d i) (Suc r) q" by (simp add: in_range_Suc)
      then show "slot ?w1 q \<noteq> None" using Suc.prems(2)[of q] by (simp add: sl1)
    next
      fix q assume a: "in_range d (Suc i) q"
      then have "q = ptr_add d i \<or> in_range d i q"
        by (cases d; cases q) (auto simp: in_range_def ptr_add_def)
      then show "\<exists>x. slot ?w1 q = Some (Some x)" using Suc.prems(3)[of q] by (auto simp: sl1)
    next
      show "fst first \<noteq> fst d \<or> snd first + r \<le> snd d" using Suc.prems(4) by auto
    qed
    then show ?thesis by (simp add: c)
  qed
qed

lemma uninitialized_copy_Raised_source:
  assumes "uninitialized_n (copy_construct_at T) first d i r w = Raised e w'"
    and "fst first \<noteq> fst d \<or> snd first + r \<le> snd d"
  shows "\<exists>q x. in_range (ptr_add first i) r q \<and> slot w q = Some (Some x) \<and> copy_throws T x"
  using assms
proof (induction r arbitrary: i w)
  case 0
  then show ?case by simp
next
  case (Suc r)
  note ds = disjoint_ranges[OF Suc.prems(2)]
  show ?case
  proof (cases "copy_construct_at T (ptr_add d i) (ptr_add first i) w")
    case (Normal u1 w1)
    then have r: "uninitialized_n (copy_construct_at T) first d (Suc i) r w1 = Raised e w'"
      using Suc.prems by simp
    from copy_construct_at_Normal[OF Normal] obtain x
      where v: "slot w (ptr_add d i) \<noteq> None"
        and w1: "w1 = set_slot (ptr_add d i) (Some x) (log CopyCtor w)" by blast
    have dj: "fst first \<noteq> fst d \<or> snd first + r \<le> snd d" using Suc.prems(2) by auto
    from Suc.IH[OF r dj] obtain q y where q: "in_range (ptr_add first (Suc i)) r q"
      "slot w1 q = Some (Some y)" "copy_throws T y" by blast
    have "q \<noteq> ptr_add d i" using q(1) ds(3)[of i] by auto
    then have "slot w q = Some (Some y)" using q(2) by (simp add: w1 slot_set_slot)
    moreover have "in_range (ptr_add first i) (Suc r) q" using q(1) by (simp add: in_range_Suc)
    ultimately show ?thesis using q(3) by blast
  next
    case (Raised e1 w1)
    from copy_construct_at_Raised[OF Raised] obtain x where
      "slot w (ptr_add first i) = Some (Some x)" "copy_throws T x" by blast
    moreover have "in_range (ptr_add first i) (Suc r) (ptr_add first i)" by (simp add: in_range_def)
    ultimately show ?thesis by blast
  next
    case Undefined
    then show ?thesis using Suc.prems by simp
  qed
qed

lemma uninitialized_move_defined:
  assumes "\<And>q. in_range (ptr_add first i) r q \<Longrightarrow> \<exists>x. slot w q = Some (Some x)"
    and "\<And>q. in_range (ptr_add d i) r q \<Longrightarrow> slot w q \<noteq> None"
    and "\<And>q. in_range d i q \<Longrightarrow> \<exists>x. slot w q = Some (Some x)"
    and "fst first \<noteq> fst d \<or> snd first + r \<le> snd d"
  shows "uninitialized_n (move_construct_at T) first d i r w \<noteq> Undefined"
  using assms
proof (induction r arbitrary: i w)
  case 0
  then show ?case by simp
next
  case (Suc r)
  have "in_range (ptr_add first i) (Suc r) (ptr_add first i)" by (simp add: in_range_def)
  then obtain x where x: "slot w (ptr_add first i) = Some (Some x)" using Suc.prems(1) by blast
  have "in_range (ptr_add d i) (Suc r) (ptr_add d i)" by (simp add: in_range_def)
  then have v: "slot w (ptr_add d i) \<noteq> None" using Suc.prems(2) by blast
  note ds = disjoint_ranges[OF Suc.prems(4)]
  show ?case
  proof (cases "move_throws T x")
    case True
    then have c: "move_construct_at T (ptr_add d i) (ptr_add first i) w = Raised ElementOperationFailure (log MoveCtor w)"
      using x v by (auto simp: move_construct_at_def place_def)
    have "\<exists>w'. destroy_n d i (log MoveCtor w) = Normal () w'"
      using Suc.prems(3) by (intro destroy_n_defined) simp
    then show ?thesis by (auto simp: c)
  next
    case False
    let ?w1 = "set_slot (ptr_add first i) (Some (moved_from T x)) (set_slot (ptr_add d i) (Some x) (log MoveCtor w))"
    have c: "move_construct_at T (ptr_add d i) (ptr_add first i) w = Normal () ?w1"
      using x v False by (auto simp: move_construct_at_def place_def)
    have sl1: "slot ?w1 z = (if z = ptr_add first i then Some (Some (moved_from T x))
                          else if z = ptr_add d i then Some (Some x) else slot w z)" for z
      using x v by (simp add: slot_set_slot)
    have "uninitialized_n (move_construct_at T) first d (Suc i) r ?w1 \<noteq> Undefined"
    proof (rule Suc.IH)
      fix q assume a: "in_range (ptr_add first (Suc i)) r q"
      then have "q \<noteq> ptr_add d i" using ds(3)[of i] by auto
      moreover have "q \<noteq> ptr_add first i" using a by (rule in_range_Suc_neq)
      moreover have "in_range (ptr_add first i) (Suc r) q" using a by (simp add: in_range_Suc)
      ultimately show "\<exists>x. slot ?w1 q = Some (Some x)" using Suc.prems(1)[of q] by (simp add: sl1)
    next
      fix q assume a: "in_range (ptr_add d (Suc i)) r q"
      then have "in_range (ptr_add d i) (Suc r) q" by (simp add: in_range_Suc)
      then show "slot ?w1 q \<noteq> None" using Suc.prems(2)[of q] by (simp add: sl1)
    next
      fix q assume a: "in_range d (Suc i) q"
      then have "q = ptr_add d i \<or> in_range d i q"
        by (cases d; cases q) (auto simp: in_range_def ptr_add_def)
      then show "\<exists>x. slot ?w1 q = Some (Some x)" using Suc.prems(3)[of q] by (auto simp: sl1)
    next
      show "fst first \<noteq> fst d \<or> snd first + r \<le> snd d" using Suc.prems(4) by auto
    qed
    then show ?thesis by (simp add: c)
  qed
qed

subsection \<open>Which blocks exist\<close>

lemma same_blocks_refl [simp]: "same_blocks w w"
  by (simp add: same_blocks_def)

lemma same_blocks_trans: "same_blocks w w1 \<Longrightarrow> same_blocks w1 w2 \<Longrightarrow> same_blocks w w2"
  by (simp add: same_blocks_def)

lemma same_blocks_log [simp]: "same_blocks w (log e w)"
  by (simp add: same_blocks_def)

lemma same_blocks_set_slot [simp]: "same_blocks w (set_slot p s w)"
  by (cases "fst p") (auto simp: same_blocks_def get_block_set_slot option.map_comp comp_def)

lemma same_blocks_set_slot_log [simp]: "same_blocks w (set_slot p s (log e w))"
  by (cases "fst p") (auto simp: same_blocks_def get_block_set_slot option.map_comp comp_def)

lemma same_blocks_objs: "same_blocks w w' \<Longrightarrow> objs w' = objs w"
  by (simp add: same_blocks_def)

lemma same_blocks_D:
  assumes "same_blocks w w'" and "get_block w a = Some blk"
  shows "\<exists>blk'. get_block w' a = Some blk' \<and> length blk' = length blk"
proof -
  have "map_option length (get_block w' a) = map_option length (get_block w a)"
    using assms(1) by (simp add: same_blocks_def)
  then show ?thesis using assms(2) by (cases "get_block w' a") auto
qed

lemma same_blocks_free: "same_blocks w w' \<Longrightarrow> free_slots w' = free_slots w"
  by (simp add: same_blocks_def)

lemma copy_construct_at_blocks:
  "copy_construct_at T d s w = Normal u w' \<or> copy_construct_at T d s w = Raised e w' \<Longrightarrow> same_blocks w w'"
  using copy_construct_at_Normal[of T d s w u w'] copy_construct_at_Raised[of T d s w e w'] by auto

lemma move_construct_at_blocks:
  "move_construct_at T d s w = Normal u w' \<or> move_construct_at T d s w = Raised e w' \<Longrightarrow> same_blocks w w'"
proof -
  have "same_blocks w (set_slot s y (set_slot d x (log MoveCtor w)))" for x y
    by (rule same_blocks_trans[OF same_blocks_set_slot_log same_blocks_set_slot])
  then show "move_construct_at T d s w = Normal u w' \<or> move_construct_at T d s w = Raised e w' \<Longrightarrow> same_blocks w w'"
    using move_construct_at_Normal[of T d s w u w'] move_construct_at_Raised[of T d s w e w']
    by auto
qed

lemma destroy_n_blocks:
  assumes "destroy_n p n w = Normal u w'"
  shows "same_blocks w w'"
  using assms
proof (induction n arbitrary: p w)
  case 0
  then show ?case by simp
next
  case (Suc n)
  from Suc.prems obtain w1 where d: "destroy_at p w = Normal () w1"
    and r: "destroy_n (ptr_add p 1) n w1 = Normal u w'"
    by (auto simp: bind_eq_Normal)
  from destroy_at_Normal[OF d] have "same_blocks w w1" by auto
  then show ?case using Suc.IH[OF r] by (rule same_blocks_trans)
qed

lemma uninitialized_n_blocks:
  assumes "uninitialized_n ctor first d i r w = Normal u w' \<or> uninitialized_n ctor first d i r w = Raised e w'"
    and "\<And>p q w0 u0 e0 w1. ctor p q w0 = Normal u0 w1 \<or> ctor p q w0 = Raised e0 w1 \<Longrightarrow> same_blocks w0 w1"
  shows "same_blocks w w'"
  using assms(1)
proof (induction r arbitrary: i w)
  case 0
  then show ?case by auto
next
  case (Suc r)
  show ?case
  proof (cases "ctor (ptr_add d i) (ptr_add first i) w")
    case (Normal u1 w1)
    then have "same_blocks w w1" using assms(2) by blast
    moreover have "same_blocks w1 w'" using Suc.prems Normal by (intro Suc.IH) simp
    ultimately show ?thesis by (rule same_blocks_trans)
  next
    case (Raised e1 w1)
    then have a: "same_blocks w w1" using assms(2) by blast
    from Suc.prems Raised obtain u2 where "destroy_n d i w1 = Normal u2 w'"
      by (auto split: outcome.splits)
    then have "same_blocks w1 w'" by (rule destroy_n_blocks)
    with a show ?thesis by (rule same_blocks_trans)
  next
    case Undefined
    then show ?thesis using Suc.prems by simp
  qed
qed

lemma relocate_blocks:
  assumes "(if mv then uninitialized_move_n T first n d w else uninitialized_copy_n T first n d w) = Normal u w'
         \<or> (if mv then uninitialized_move_n T first n d w else uninitialized_copy_n T first n d w) = Raised e w'"
  shows "same_blocks w w'"
proof (cases mv)
  case True
  then show ?thesis using assms
    by (auto simp: uninitialized_move_n_def intro: uninitialized_n_blocks[where ctor="move_construct_at T"]
        move_construct_at_blocks)
next
  case False
  then show ?thesis using assms
    by (auto simp: uninitialized_copy_n_def intro: uninitialized_n_blocks[where ctor="copy_construct_at T"]
        copy_construct_at_blocks)
qed

lemma Deallocate_defined:
  assumes "b = None \<or> (\<exists>a blk. b = Some a \<and> get_block w a = Some blk)"
  shows "\<exists>w'. Deallocate b w = Normal () w'"
  using assms by (auto simp: Deallocate_def)

lemma uninitialized_move_Raised_source:
  assumes "uninitialized_n (move_construct_at T) first d i r w = Raised e w'"
    and "fst first \<noteq> fst d \<or> snd first + r \<le> snd d"
  shows "\<exists>q x. in_range (ptr_add first i) r q \<and> slot w q = Some (Some x) \<and> move_throws T x"
  using assms
proof (induction r arbitrary: i w)
  case 0
  then show ?case by simp
next
  case (Suc r)
  note ds = disjoint_ranges[OF Suc.prems(2)]
  show ?case
  proof (cases "move_construct_at T (ptr_add d i) (ptr_add first i) w")
    case (Normal u1 w1)
    then have r: "uninitialized_n (move_construct_at T) first d (Suc i) r w1 = Raised e w'"
      using Suc.prems by simp
    from move_construct_at_Normal[OF Normal] obtain x
      where v: "slot w (ptr_add d i) \<noteq> None" and x: "slot w (ptr_add first i) = Some (Some x)"
        and w1: "w1 = set_slot (ptr_add first i) (Some (moved_from T x)) (set_slot (ptr_add d i) (Some x) (log MoveCtor w))"
      by blast
    have dj: "fst first \<noteq> fst d \<or> snd first + r \<le> snd d" using Suc.prems(2) by auto
    from Suc.IH[OF r dj] obtain q y where q: "in_range (ptr_add first (Suc i)) r q"
      "slot w1 q = Some (Some y)" "move_throws T y" by blast
    have "q \<noteq> ptr_add d i" using q(1) ds(3)[of i] by auto
    moreover have "q \<noteq> ptr_add first i" using q(1) by (rule in_range_Suc_neq)
    ultimately have "slot w q = Some (Some y)" using q(2) by (simp add: w1 slot_set_slot split: if_splits)
    moreover have "in_range (ptr_add first i) (Suc r) q" using q(1) by (simp add: in_range_Suc)
    ultimately show ?thesis using q(3) by blast
  next
    case (Raised e1 w1)
    from move_construct_at_Raised[OF Raised] obtain x where
      "slot w (ptr_add first i) = Some (Some x)" "move_throws T x" by blast
    moreover have "in_range (ptr_add first i) (Suc r) (ptr_add first i)" by (simp add: in_range_def)
    ultimately show ?thesis by blast
  next
    case Undefined
    then show ?thesis using Suc.prems by simp
  qed
qed

lemma unwind_Normal [simp]: "unwind (Normal r w) d = Normal r w"
  by (simp add: unwind_def)

lemma unwind_Undefined [simp]: "unwind Undefined d = Undefined"
  by (simp add: unwind_def)

lemma in_range_0 [simp]: "\<not> in_range p 0 q"
  by (auto simp: in_range_def)

lemma relocate_defined:
  assumes "\<And>q. in_range first n q \<Longrightarrow> \<exists>x. slot w q = Some (Some x)"
    and "\<And>q. in_range d n q \<Longrightarrow> slot w q \<noteq> None"
    and "fst first \<noteq> fst d"
  shows "(if mv then uninitialized_move_n T first n d w else uninitialized_copy_n T first n d w) \<noteq> Undefined"
proof -
  have dj: "fst first \<noteq> fst d \<or> snd first + n \<le> snd d" using assms(3) by simp
  have e: "\<And>q. in_range d 0 q \<Longrightarrow> \<exists>x. slot w q = Some (Some x)" by simp
  show ?thesis
    using uninitialized_move_defined[of first 0 n w d T] uninitialized_copy_defined[of first 0 n w d T]
      assms(1,2) dj e
    by (simp add: uninitialized_move_n_def uninitialized_copy_n_def)
qed

lemma relocate_Raised_source:
  assumes "(if mv then uninitialized_move_n T first n d w else uninitialized_copy_n T first n d w) = Raised e w'"
    and "fst first \<noteq> fst d"
  shows "\<exists>q x. in_range first n q \<and> slot w q = Some (Some x) \<and> (if mv then move_throws T x else copy_throws T x)"
proof -
  have dj: "fst first \<noteq> fst d \<or> snd first + n \<le> snd d" using assms(2) by simp
  show ?thesis
    using uninitialized_move_Raised_source[of T first d 0 n w e w', OF _ dj]
      uninitialized_copy_Raised_source[of T first d 0 n w e w', OF _ dj] assms(1)
    by (auto simp: uninitialized_move_n_def uninitialized_copy_n_def split: if_splits)
qed

lemma relocate_total:
  assumes "\<And>q. in_range first n q \<Longrightarrow> \<exists>x. slot w q = Some (Some x) \<and> \<not> (if mv then move_throws T x else copy_throws T x)"
    and "\<And>q. in_range d n q \<Longrightarrow> slot w q \<noteq> None"
    and "fst first \<noteq> fst d"
  shows "\<exists>w'. (if mv then uninitialized_move_n T first n d w else uninitialized_copy_n T first n d w) = Normal () w'"
proof -
  let ?m = "if mv then uninitialized_move_n T first n d w else uninitialized_copy_n T first n d w"
  have "?m \<noteq> Undefined"
    using assms by (intro relocate_defined) blast+
  moreover have "?m \<noteq> Raised e w'" for e w'
  proof
    assume "?m = Raised e w'"
    from relocate_Raised_source[OF this assms(3)] assms(1) show False by fastforce
  qed
  ultimately show ?thesis by (cases ?m) auto
qed

lemma RawMemory_ctor_total:
  assumes "allocatable T n w"
  shows "\<exists>w'. RawMemory_ctor T n w =
     Normal \<lparr>buffer_m = (if n = 0 then None else Some (length (heap w))), capacity_m = n\<rparr> w'"
  using assms allocatable_slots[OF assms] by (simp add: RawMemory_ctor_def Allocate_def allocatable_def)

lemma RawMemory_ctor_blocks:
  assumes "RawMemory_ctor T n w = Normal m w'" and "get_block w a = Some blk"
  shows "get_block w' a = Some blk"
proof -
  from assms(1) obtain b where a: "Allocate T n w = Normal b w'"
    by (auto simp: RawMemory_ctor_def bind_eq_Normal)
  have "a < length (heap w)" using assms(2) by (auto simp: get_block_def split: if_splits)
  then show ?thesis using Allocate_Normal(4)[OF a, of a] assms(2) by simp
qed

lemma in_range_GetAddress:
  "in_range (GetAddress m) n q \<longleftrightarrow> fst q = buffer_m m \<and> snd q < n"
  by (simp add: in_range_def)

lemma Reserve_total:
  assumes g: "get_obj w this = Some v" and inv: "vector_inv w v"
    and k: "capacity_m (data_m v) < k" and mem: "allocatable T k w"
    and nt: "\<And>i x. i < size_m v \<Longrightarrow> slot w (buffer_m (data_m v), i) = Some (Some x) \<Longrightarrow> \<not> relocation_throws T x"
  shows "\<exists>w'. Reserve T this k w = Normal () w'"
proof -
  let ?mv = "is_nothrow_move_constructible T \<or> \<not> is_copy_constructible T"
  let ?old = "GetAddress (data_m v)"
  let ?na = "length (heap w)"
  let ?nd = "\<lparr>buffer_m = Some ?na, capacity_m = k\<rparr>"
  have k0: "k \<noteq> 0" using k by simp
  from RawMemory_ctor_total[OF mem] k0 obtain w1 where a: "RawMemory_ctor T k w = Normal ?nd w1"
    by auto
  have s1: "slot w1 p = (if fst p = Some ?na then (if snd p < k then Some None else None) else slot w p)" for p
    using RawMemory_ctor_exact[OF a mem, of p] k0 by simp
  have fr: "buffer_m (data_m v) \<noteq> Some ?na" by (rule vector_inv_fresh[OF inv])
  have dj: "fst ?old \<noteq> fst (GetAddress ?nd)" using fr by simp
  have src: "\<exists>x. slot w1 q = Some (Some x) \<and> \<not> (if ?mv then move_throws T x else copy_throws T x)"
    if ir: "in_range ?old (size_m v) q" for q
  proof -
    obtain j where q: "q = (buffer_m (data_m v), j)" "j < size_m v"
      using ir by (cases q) (auto simp: in_range_GetAddress)
    from vector_inv_live[OF inv q(2)] obtain x where "slot w (buffer_m (data_m v), j) = Some (Some x)"
      by (auto simp: ptr_add_def GetAddress_def)
    then show ?thesis using nt[OF q(2)] fr
      by (auto simp: s1 q relocation_throws_def relocates_by_move_def)
  qed
  have sz: "size_m v \<le> capacity_m (data_m v)" using inv by (simp add: vector_inv_def)
  have dst: "slot w1 q \<noteq> None" if "in_range (GetAddress ?nd) (size_m v) q" for q
    using that sz k by (cases q) (auto simp: in_range_GetAddress s1)
  from relocate_total[of ?old "size_m v" w1 ?mv T "GetAddress ?nd", OF src dst dj]
  obtain w2 where rel: "(if ?mv then uninitialized_move_n T ?old (size_m v) (GetAddress ?nd) w1
              else uninitialized_copy_n T ?old (size_m v) (GetAddress ?nd) w1) = Normal () w2"
    by blast
  note rl = relocate_Normal[OF rel dj]
  from destroy_n_defined[of ?old "size_m v" w2] rl(7)
  obtain w3 where dn: "destroy_n ?old (size_m v) w2 = Normal () w3" by blast
  let ?w4 = "upd_obj this (\<lambda>x. x\<lparr>data_m := fst (RawMemory_Swap (data_m v) ?nd)\<rparr>) w3"
  have "\<exists>w'. RawMemory_dtor (snd (RawMemory_Swap (data_m v) ?nd)) ?w4 = Normal () w'"
  proof (cases "buffer_m (data_m v)")
    case None
    then show ?thesis by (simp add: RawMemory_dtor_def Deallocate_def)
  next
    case (Some a)
    then obtain blk where "get_block w a = Some blk"
      using inv by (auto simp: vector_inv_def split: option.splits)
    then have "get_block w1 a = Some blk" by (rule RawMemory_ctor_blocks[OF a])
    moreover have "same_blocks w1 w2" by (rule relocate_blocks[OF disjI1, OF rel])
    moreover have "same_blocks w2 w3" using dn by (rule destroy_n_blocks)
    ultimately obtain blk' where "get_block w3 a = Some blk'"
      by (meson same_blocks_D)
    then show ?thesis using Some by (simp add: RawMemory_dtor_def Deallocate_def)
  qed
  then show ?thesis using g k a rel dn by (simp add: Reserve_def)
qed


section \<open>Appending an element\<close>

lemma bind_cong:
  assumes "\<And>r w'. m = Normal r w' \<Longrightarrow> f r w' = g r w'"
  shows "bind m f = bind m g"
  using assms by (cases m) simp_all

lemma RawMemory_ctor_plus:
  assumes "RawMemory_ctor T n w = Normal nd w1" and "k \<le> n"
  shows "RawMemory_plus nd k = Some (ptr_add (GetAddress nd) k)"
  using RawMemory_ctor_Normal(1)[OF assms(1)] assms(2) by (simp add: RawMemory_plus_def)

lemma EmplaceBack_append_new:
  "EmplaceBack T this args w = (case get_obj w this of
       None \<Rightarrow> Undefined
     | Some v \<Rightarrow>
         bind (append_new T this v args w) (\<lambda>_ w5.
         (case get_obj (upd_obj this (\<lambda>x. x\<lparr>size_m := size_m x + 1\<rparr>) w5) this of
            None \<Rightarrow> Undefined
          | Some v' \<Rightarrow> (case RawMemory_index (data_m v') (size_m v' - 1) of
                None \<Rightarrow> Undefined
              | Some p \<Rightarrow> Normal p (upd_obj this (\<lambda>x. x\<lparr>size_m := size_m x + 1\<rparr>) w5)))))"
  unfolding EmplaceBack_def append_new_def by (rule refl)

lemma PushBack_copy_append_new:
  "PushBack_copy T this val w = (case get_obj w this of
       None \<Rightarrow> Undefined
     | Some v \<Rightarrow>
         bind (append_new T this v (CopyOf val) w) (\<lambda>_ w5.
         Normal () (upd_obj this (\<lambda>x. x\<lparr>size_m := size_m x + 1\<rparr>) w5)))"
proof (cases "get_obj w this")
  case None
  then show ?thesis by (simp add: PushBack_copy_def)
next
  case (Some v)
  show ?thesis
    unfolding PushBack_copy_def append_new_def using Some
    by (auto intro!: bind_cong arg_cong2[where f=bind] arg_cong2[where f=unwind]
        simp: RawMemory_plus_def dest!: RawMemory_ctor_Normal(1))
qed

lemma PushBack_move_append_new:
  "PushBack_move T this val w = (case get_obj w this of
       None \<Rightarrow> Undefined
     | Some v \<Rightarrow>
         bind (append_new T this v (MoveOf val) w) (\<lambda>_ w5.
         Normal () (upd_obj this (\<lambda>x. x\<lparr>size_m := size_m x + 1\<rparr>) w5)))"
proof (cases "get_obj w this")
  case None
  then show ?thesis by (simp add: PushBack_move_def)
next
  case (Some v)
  show ?thesis
    unfolding PushBack_move_def append_new_def using Some
    by (auto intro!: bind_cong arg_cong2[where f=bind] arg_cong2[where f=unwind]
        simp: RawMemory_plus_def dest!: RawMemory_ctor_Normal(1))
qed

lemma place_blocks:
  "place p ev r w = Normal u w' \<or> place p ev r w = Raised e w' \<Longrightarrow> same_blocks w w'"
  by (auto dest!: place_Normal place_Raised)

lemma construct_at_blocks:
  assumes "construct_at T p args w = Normal u w' \<or> construct_at T p args w = Raised e w'"
  shows "same_blocks w w'"
proof (cases args)
  case (Args r)
  then show ?thesis using assms place_blocks[of p ArgsCtor r w u w' e] by simp
next
  case (CopyOf x)
  then show ?thesis
    using assms place_blocks[of p CopyCtor "if copy_throws T x then None else Some x" w u w' e] by simp
next
  case (MoveOf src)
  then show ?thesis using assms move_construct_at_blocks[of T p src w u w' e] by simp
qed

lemma RawMemory_dtor_not_Raised [simp]: "RawMemory_dtor m w \<noteq> Raised e w'"
  by (simp add: RawMemory_dtor_def)

lemma RawMemory_ctor_Raised:
  assumes "RawMemory_ctor T n w = Raised e w'"
  shows "w' = w" "e = AllocationFailure" "free_slots w < alloc_slots T n"
  using assms Allocate_Raised[of T n w e w'] by (auto simp: RawMemory_ctor_def bind_eq_Raised)

lemma RawMemory_ctor_defined [simp]: "RawMemory_ctor T n w \<noteq> Undefined"
  by (simp add: RawMemory_ctor_def Allocate_def)

lemma bind_NormalE:
  assumes "bind m f = Normal r w'"
  obtains x w1 where "m = Normal x w1" and "f x w1 = Normal r w'"
  using assms by (cases m) simp_all

lemma bind_RaisedE:
  assumes "bind m f = Raised e w'"
  obtains (first) "m = Raised e w'" | (later) x w1 where "m = Normal x w1" and "f x w1 = Raised e w'"
  using assms by (cases m) simp_all

lemma unwind_RaisedE:
  assumes "unwind m d = Raised e w'"
  obtains w1 where "m = Raised e w1" and "d w1 = Normal () w'"
  using assms by (auto simp: unwind_eq_Raised)

lemma append_new_grow:
  assumes "size_m v = Capacity v"
  shows "append_new T this v args w =
        bind (RawMemory_ctor T (if size_m v = 0 then 1 else size_m v * 2) w) (\<lambda>new_data w1.
        bind (unwind
               (bind (construct_at T (ptr_add (GetAddress new_data) (size_m v)) args w1) (\<lambda>_ w2.
                if is_nothrow_move_constructible T \<or> \<not> is_copy_constructible T
                then uninitialized_move_n T (GetAddress (data_m v)) (size_m v) (GetAddress new_data) w2
                else uninitialized_copy_n T (GetAddress (data_m v)) (size_m v) (GetAddress new_data) w2))
               (RawMemory_dtor new_data)) (\<lambda>_ w3.
        bind (destroy_n (GetAddress (data_m v)) (size_m v)
               (upd_obj this (\<lambda>x. x\<lparr>data_m := new_data\<rparr>) w3)) (\<lambda>_ w4.
        RawMemory_dtor (data_m v) w4)))"
  unfolding append_new_def RawMemory_Swap_eq fst_conv snd_conv using assms by (rule if_P)

lemma append_new_stay:
  assumes "size_m v \<noteq> Capacity v"
  shows "append_new T this v args w =
     (case RawMemory_plus (data_m v) (size_m v) of
              None \<Rightarrow> Undefined
            | Some p \<Rightarrow> construct_at T p args w)"
  unfolding append_new_def using assms by (rule if_not_P)

lemma append_new_grow_Normal:
  assumes "append_new T this v args w = Normal u w'" and "size_m v = Capacity v"
  shows "\<exists>nd w1 u2 w2 u3 w3 u4 w4.
      RawMemory_ctor T (if size_m v = 0 then 1 else size_m v * 2) w = Normal nd w1 \<and>
      construct_at T (ptr_add (GetAddress nd) (size_m v)) args w1 = Normal u2 w2 \<and>
      (if is_nothrow_move_constructible T \<or> \<not> is_copy_constructible T
       then uninitialized_move_n T (GetAddress (data_m v)) (size_m v) (GetAddress nd) w2
       else uninitialized_copy_n T (GetAddress (data_m v)) (size_m v) (GetAddress nd) w2) = Normal u3 w3 \<and>
      destroy_n (GetAddress (data_m v)) (size_m v) (upd_obj this (\<lambda>x. x\<lparr>data_m := nd\<rparr>) w3) = Normal u4 w4 \<and>
      RawMemory_dtor (data_m v) w4 = Normal u w'"
  using assms(1)[unfolded append_new_grow[OF assms(2)] bind_eq_Normal unwind_eq_Normal]
  by blast

text \<open>How a full vector can fail to take one more element: the allocation fails, or the
  construction of the new element throws, or the relocation of an element throws.\<close>

lemma append_new_grow_Raised:
  assumes "append_new T this v args w = Raised e w'" and "size_m v = Capacity v"
  shows "RawMemory_ctor T (if size_m v = 0 then 1 else size_m v * 2) w = Raised e w' \<or>
    (\<exists>nd w1 wx. RawMemory_ctor T (if size_m v = 0 then 1 else size_m v * 2) w = Normal nd w1 \<and>
      construct_at T (ptr_add (GetAddress nd) (size_m v)) args w1 = Raised e wx \<and>
      RawMemory_dtor nd wx = Normal () w') \<or>
    (\<exists>nd w1 u2 w2 wx. RawMemory_ctor T (if size_m v = 0 then 1 else size_m v * 2) w = Normal nd w1 \<and>
      construct_at T (ptr_add (GetAddress nd) (size_m v)) args w1 = Normal u2 w2 \<and>
      (if is_nothrow_move_constructible T \<or> \<not> is_copy_constructible T
        then uninitialized_move_n T (GetAddress (data_m v)) (size_m v) (GetAddress nd) w2
        else uninitialized_copy_n T (GetAddress (data_m v)) (size_m v) (GetAddress nd) w2) = Raised e wx \<and>
      RawMemory_dtor nd wx = Normal () w')"
  using assms(1)[unfolded append_new_grow[OF assms(2)] bind_eq_Raised unwind_eq_Raised
      bind_eq_Normal unwind_eq_Normal]
    destroy_n_not_Raised RawMemory_dtor_not_Raised
  by blast

text \<open>How the object changes.\<close>

lemma append_new_obj:
  assumes r: "append_new T this v args w = Normal u w'" and g: "get_obj w this = Some v"
  shows "get_obj w' this = Some (v\<lparr>data_m :=
           (if size_m v = Capacity v
            then \<lparr>buffer_m = Some (length (heap w)), capacity_m = (if size_m v = 0 then 1 else size_m v * 2)\<rparr>
            else data_m v)\<rparr>)"
    and "i \<noteq> this \<Longrightarrow> get_obj w' i = get_obj w i"
proof -
  let ?nc = "if size_m v = 0 then 1 else size_m v * 2"
  let ?mv = "is_nothrow_move_constructible T \<or> \<not> is_copy_constructible T"
  let ?old = "GetAddress (data_m v)"
  have "get_obj w' this = Some (v\<lparr>data_m :=
           (if size_m v = Capacity v then \<lparr>buffer_m = Some (length (heap w)), capacity_m = ?nc\<rparr>
            else data_m v)\<rparr>) \<and> (i \<noteq> this \<longrightarrow> get_obj w' i = get_obj w i)"
  proof (cases "size_m v = Capacity v")
    case False
    then obtain p where "construct_at T p args w = Normal u w'"
      using r unfolding append_new_stay[OF False] by (auto split: option.splits)
    from construct_at_blocks[OF disjI1, OF this] have "objs w' = objs w" by (rule same_blocks_objs)
    from get_obj_cong[OF this] show ?thesis using g False by simp
  next
    case True
    from append_new_grow_Normal[OF r True] obtain nd w1 u2 w2 u3 w3 u4 w4 where
      a: "RawMemory_ctor T ?nc w = Normal nd w1"
      and c: "construct_at T (ptr_add (GetAddress nd) (size_m v)) args w1 = Normal u2 w2"
      and rel: "(if ?mv then uninitialized_move_n T ?old (size_m v) (GetAddress nd) w2
                else uninitialized_copy_n T ?old (size_m v) (GetAddress nd) w2) = Normal u3 w3"
      and dn: "destroy_n ?old (size_m v) (upd_obj this (\<lambda>x. x\<lparr>data_m := nd\<rparr>) w3) = Normal u4 w4"
      and de: "RawMemory_dtor (data_m v) w4 = Normal u w'"
      by (elim exE conjE)
    have nd: "nd = \<lparr>buffer_m = Some (length (heap w)), capacity_m = ?nc\<rparr>"
      using RawMemory_ctor_Normal(1)[OF a] by simp
    have "objs w3 = objs w"
      using RawMemory_ctor_Normal(2)[OF a] same_blocks_objs[OF construct_at_blocks[OF disjI1, OF c]]
        same_blocks_objs[OF relocate_blocks[OF disjI1, OF rel]] by simp
    then have g3: "get_obj w3 j = get_obj w j" for j by (rule get_obj_cong)
    have "objs w' = objs (upd_obj this (\<lambda>x. x\<lparr>data_m := nd\<rparr>) w3)"
      using RawMemory_dtor_Normal(1)[OF de] same_blocks_objs[OF destroy_n_blocks[OF dn]] by simp
    then have "get_obj w' j = get_obj (upd_obj this (\<lambda>x. x\<lparr>data_m := nd\<rparr>) w3) j" for j
      by (rule get_obj_cong)
    then show ?thesis using g True by (simp add: get_obj_upd_obj g3 nd)
  qed
  then show "get_obj w' this = Some (v\<lparr>data_m :=
           (if size_m v = Capacity v then \<lparr>buffer_m = Some (length (heap w)), capacity_m = ?nc\<rparr>
            else data_m v)\<rparr>)"
    and "i \<noteq> this \<Longrightarrow> get_obj w' i = get_obj w i" by simp_all
qed

lemma append_new_Raised_obj:
  assumes r: "append_new T this v args w = Raised e w'"
  shows "objs w' = objs w"
proof (cases "size_m v = Capacity v")
  case False
  then obtain p where "construct_at T p args w = Raised e w'"
    using r unfolding append_new_stay[OF False] by (auto split: option.splits)
  from construct_at_blocks[OF disjI2, OF this] show ?thesis by (rule same_blocks_objs)
next
  case True
  let ?nc = "if size_m v = 0 then 1 else size_m v * 2"
  from append_new_grow_Raised[OF r True] show ?thesis
  proof (elim disjE exE conjE, goal_cases)
    case 1
    then show ?case using RawMemory_ctor_Raised(1) by blast
  next
    case (2 nd w1 wx)
    then show ?case
      using RawMemory_ctor_Normal(2)[OF 2(1)] RawMemory_dtor_Normal(1)[OF 2(3)]
        same_blocks_objs[OF construct_at_blocks[OF disjI2, OF 2(2)]] by simp
  next
    case (3 nd w1 u2 w2 wx)
    then show ?case
      using RawMemory_ctor_Normal(2)[OF 3(1)] RawMemory_dtor_Normal(1)[OF 3(4)]
        same_blocks_objs[OF construct_at_blocks[OF disjI1, OF 3(2)]]
        same_blocks_objs[OF relocate_blocks[OF disjI2, OF 3(3)]] by simp
  qed
qed

lemma Emplace_unfold:
  "Emplace T this pos args w = (case get_obj w this of
       None \<Rightarrow> Undefined
     | Some v \<Rightarrow> (case (distance (Vector_begin v) pos, distance pos (Vector_end v)) of
         (Some cursor, Some rest) \<Rightarrow>
           bind (if rest = 0 then bind (EmplaceBack T this args w) (\<lambda>_ w'. Normal () w')
                 else
                   bind (if size_m v = Capacity v then emplace_grow T this v pos cursor rest args w
                         else emplace_shift T v pos cursor rest args w) (\<lambda>_ w7.
                   Normal () (upd_obj this (\<lambda>x. x\<lparr>size_m := size_m x + 1\<rparr>) w7))) (\<lambda>_ w8.
           (case get_obj w8 this of
              None \<Rightarrow> Undefined
            | Some v' \<Rightarrow> Normal (ptr_add (GetAddress (data_m v')) cursor) w8))
       | _ \<Rightarrow> Undefined))"
  unfolding Emplace_def emplace_grow_def emplace_shift_def by (rule refl)

lemma copy_assign_at_blocks:
  "copy_assign_at T d s w = Normal u w' \<Longrightarrow> same_blocks w w'"
  using copy_assign_at_Normal[of T d s w u w'] by auto

lemma move_assign_at_blocks:
  assumes "move_assign_at T d s w = Normal u w'"
  shows "same_blocks w w'"
proof -
  have "same_blocks w (set_slot s y (set_slot d x (log MoveAssign w)))" for x y
    by (rule same_blocks_trans[OF same_blocks_set_slot_log same_blocks_set_slot])
  then show ?thesis using move_assign_at_Normal[OF assms] by auto
qed

lemma assign_backward_Normal:
  assumes "assign_backward asg first n d_last w = Normal u w'"
    and "\<And>p q w0 u0 w1. asg p q w0 = Normal u0 w1 \<Longrightarrow>
           same_blocks w0 w1 \<and> trace w1 = trace w0 @ [ev] \<and>
           (\<forall>z. fst z \<noteq> fst p \<and> fst z \<noteq> fst q \<longrightarrow> slot w1 z = slot w0 z)"
  shows "same_blocks w w' \<and> trace w' = trace w @ replicate n ev \<and>
         (\<forall>z. fst z \<noteq> fst d_last \<and> fst z \<noteq> fst first \<longrightarrow> slot w' z = slot w z)"
  using assms(1)
proof (induction n arbitrary: d_last w)
  case 0
  then show ?case by simp
next
  case (Suc n)
  from Suc.prems obtain d where d: "ptr_sub d_last 1 = Some d"
    by (auto split: option.splits)
  then have fd: "fst d = fst d_last" by (auto simp: ptr_sub_def split: if_splits)
  from Suc.prems d obtain u1 w1 where
    a: "asg d (ptr_add first n) w = Normal u1 w1"
    and r: "assign_backward asg first n d w1 = Normal u w'"
    by (auto simp: bind_eq_Normal)
  note A = assms(2)[OF a]
  note ih = Suc.IH[OF r]
  have "same_blocks w w'" using A ih same_blocks_trans by blast
  moreover have "trace w' = trace w @ replicate (Suc n) ev"
    using A ih by (simp add: replicate_append_same)
  moreover have "slot w' z = slot w z" if "fst z \<noteq> fst d_last \<and> fst z \<noteq> fst first" for z
  proof -
    from ih have s1: "\<forall>z. fst z \<noteq> fst d \<and> fst z \<noteq> fst first \<longrightarrow> slot w' z = slot w1 z"
      by blast
    from A have s2: "\<forall>z. fst z \<noteq> fst d \<and> fst z \<noteq> fst (ptr_add first n) \<longrightarrow> slot w1 z = slot w z"
      by blast
    have "slot w' z = slot w1 z" using s1[rule_format, of z] that fd by simp
    also have "\<dots> = slot w z" using s2[rule_format, of z] that fd by simp
    finally show ?thesis .
  qed
  ultimately show ?case by blast
qed

lemma copy_assign_at_frame:
  assumes "copy_assign_at T p q w0 = Normal u0 w1"
  shows "same_blocks w0 w1 \<and> trace w1 = trace w0 @ [CopyAssign] \<and>
           (\<forall>z. fst z \<noteq> fst p \<and> fst z \<noteq> fst q \<longrightarrow> slot w1 z = slot w0 z)"
  using copy_assign_at_Normal[OF assms] copy_assign_at_blocks[OF assms]
  by (auto simp: slot_set_slot)

lemma move_assign_at_frame:
  assumes "move_assign_at T p q w0 = Normal u0 w1"
  shows "same_blocks w0 w1 \<and> trace w1 = trace w0 @ [MoveAssign] \<and>
           (\<forall>z. fst z \<noteq> fst p \<and> fst z \<noteq> fst q \<longrightarrow> slot w1 z = slot w0 z)"
  using move_assign_at_Normal[OF assms] move_assign_at_blocks[OF assms]
  by (auto simp: slot_set_slot)

lemma copy_backward_Normal:
  assumes "copy_backward T first n d_last w = Normal u w'"
  shows "same_blocks w w'" "trace w' = trace w @ replicate n CopyAssign"
    "fst z \<noteq> fst d_last \<Longrightarrow> fst z \<noteq> fst first \<Longrightarrow> slot w' z = slot w z"
proof -
  have "same_blocks w w' \<and> trace w' = trace w @ replicate n CopyAssign \<and>
         (\<forall>z. fst z \<noteq> fst d_last \<and> fst z \<noteq> fst first \<longrightarrow> slot w' z = slot w z)"
    by (rule assign_backward_Normal[OF assms[unfolded copy_backward_def]]) (rule copy_assign_at_frame)
  then show "same_blocks w w'" "trace w' = trace w @ replicate n CopyAssign"
    "fst z \<noteq> fst d_last \<Longrightarrow> fst z \<noteq> fst first \<Longrightarrow> slot w' z = slot w z"
    by blast+
qed

lemma move_backward_Normal:
  assumes "move_backward T first n d_last w = Normal u w'"
  shows "same_blocks w w'" "trace w' = trace w @ replicate n MoveAssign"
    "fst z \<noteq> fst d_last \<Longrightarrow> fst z \<noteq> fst first \<Longrightarrow> slot w' z = slot w z"
proof -
  have "same_blocks w w' \<and> trace w' = trace w @ replicate n MoveAssign \<and>
         (\<forall>z. fst z \<noteq> fst d_last \<and> fst z \<noteq> fst first \<longrightarrow> slot w' z = slot w z)"
    by (rule assign_backward_Normal[OF assms[unfolded move_backward_def]]) (rule move_assign_at_frame)
  then show "same_blocks w w'" "trace w' = trace w @ replicate n MoveAssign"
    "fst z \<noteq> fst d_last \<Longrightarrow> fst z \<noteq> fst first \<Longrightarrow> slot w' z = slot w z"
    by blast+
qed

lemma emplace_grow_alt:
  "emplace_grow T this v pos cursor rest args w =
     bind (RawMemory_ctor T (if size_m v = 0 then 1 else size_m v * 2) w) (\<lambda>new_data w1.
     bind (unwind
            (bind (construct_at T (ptr_add (GetAddress new_data) cursor) args w1) (\<lambda>_ w2.
             bind (if is_nothrow_move_constructible T \<or> \<not> is_copy_constructible T
                   then uninitialized_move_n T (Vector_begin v) cursor (GetAddress new_data) w2
                   else uninitialized_copy_n T (Vector_begin v) cursor (GetAddress new_data) w2) (\<lambda>_ w3.
             if is_nothrow_move_constructible T \<or> \<not> is_copy_constructible T
             then uninitialized_move_n T pos rest (ptr_add (GetAddress new_data) (cursor + 1)) w3
             else uninitialized_copy_n T pos rest (ptr_add (GetAddress new_data) (cursor + 1)) w3)))
            (RawMemory_dtor new_data)) (\<lambda>_ w4.
     bind (destroy_n (GetAddress (data_m v)) (size_m v)
            (upd_obj this (\<lambda>x. x\<lparr>data_m := new_data\<rparr>) w4)) (\<lambda>_ w5.
     RawMemory_dtor (data_m v) w5)))"
  by (cases "is_nothrow_move_constructible T \<or> \<not> is_copy_constructible T")
    (simp_all only: emplace_grow_def RawMemory_Swap_eq fst_conv snd_conv if_True if_False)

lemma emplace_shift_alt:
  "emplace_shift T v pos cursor rest args w =
     bind (RawMemory_ctor T 1 w) (\<lambda>new_value w1.
     bind (unwind
            (bind (construct_at T (GetAddress new_value) args w1) (\<lambda>_ w2.
             bind (case ptr_sub (Vector_end v) 1 of
                     None \<Rightarrow> Undefined
                   | Some lst \<Rightarrow>
                       bind (if is_nothrow_move_assignable T \<or> \<not> is_copy_assignable T
                             then uninitialized_move_n T lst 1 (Vector_end v) w2
                             else uninitialized_copy_n T lst 1 (Vector_end v) w2) (\<lambda>_ w3.
                       bind (if is_nothrow_move_assignable T \<or> \<not> is_copy_assignable T
                             then move_backward T pos (rest - 1) (Vector_end v) w3
                             else copy_backward T pos (rest - 1) (Vector_end v) w3) (\<lambda>_ w4.
                       if is_nothrow_move_assignable T \<or> \<not> is_copy_assignable T
                       then move_assign_at T (ptr_add (GetAddress (data_m v)) cursor) (GetAddress new_value) w4
                       else copy_assign_at T (ptr_add (GetAddress (data_m v)) cursor) (GetAddress new_value) w4))) (\<lambda>_ w5.
             destroy_n (GetAddress new_value) 1 w5)))
            (RawMemory_dtor new_value)) (\<lambda>_ w6.
     RawMemory_dtor new_value w6))"
  by (cases "is_nothrow_move_assignable T \<or> \<not> is_copy_assignable T")
    (simp_all only: emplace_shift_def if_True if_False)

lemma emplace_grow_Normal:
  assumes "emplace_grow T this v pos cursor rest args w = Normal u w'"
  shows "\<exists>nd w1 u2 w2 u3 w3 u4 w4 u5 w5.
      RawMemory_ctor T (if size_m v = 0 then 1 else size_m v * 2) w = Normal nd w1 \<and>
      construct_at T (ptr_add (GetAddress nd) cursor) args w1 = Normal u2 w2 \<and>
      (if is_nothrow_move_constructible T \<or> \<not> is_copy_constructible T
       then uninitialized_move_n T (Vector_begin v) cursor (GetAddress nd) w2
       else uninitialized_copy_n T (Vector_begin v) cursor (GetAddress nd) w2) = Normal u3 w3 \<and>
      (if is_nothrow_move_constructible T \<or> \<not> is_copy_constructible T
       then uninitialized_move_n T pos rest (ptr_add (GetAddress nd) (cursor + 1)) w3
       else uninitialized_copy_n T pos rest (ptr_add (GetAddress nd) (cursor + 1)) w3) = Normal u4 w4 \<and>
      destroy_n (GetAddress (data_m v)) (size_m v) (upd_obj this (\<lambda>x. x\<lparr>data_m := nd\<rparr>) w4) = Normal u5 w5 \<and>
      RawMemory_dtor (data_m v) w5 = Normal u w'"
  using assms[unfolded emplace_grow_alt bind_eq_Normal unwind_eq_Normal]
  by (elim exE conjE) (intro exI conjI; assumption)

lemma emplace_shift_Normal:
  assumes "emplace_shift T v pos cursor rest args w = Normal u w'"
  shows "\<exists>nv w1 u2 w2 lst u3 w3 u4 w4 u5 w5 u6 w6.
      RawMemory_ctor T 1 w = Normal nv w1 \<and>
      construct_at T (GetAddress nv) args w1 = Normal u2 w2 \<and>
      ptr_sub (Vector_end v) 1 = Some lst \<and>
      (if is_nothrow_move_assignable T \<or> \<not> is_copy_assignable T
       then uninitialized_move_n T lst 1 (Vector_end v) w2
       else uninitialized_copy_n T lst 1 (Vector_end v) w2) = Normal u3 w3 \<and>
      (if is_nothrow_move_assignable T \<or> \<not> is_copy_assignable T
       then move_backward T pos (rest - 1) (Vector_end v) w3
       else copy_backward T pos (rest - 1) (Vector_end v) w3) = Normal u4 w4 \<and>
      (if is_nothrow_move_assignable T \<or> \<not> is_copy_assignable T
       then move_assign_at T (ptr_add (GetAddress (data_m v)) cursor) (GetAddress nv) w4
       else copy_assign_at T (ptr_add (GetAddress (data_m v)) cursor) (GetAddress nv) w4) = Normal u5 w5 \<and>
      destroy_n (GetAddress nv) 1 w5 = Normal u6 w6 \<and>
      RawMemory_dtor nv w6 = Normal u w'"
proof (cases "ptr_sub (Vector_end v) 1")
  case None
  then show ?thesis
    using assms[unfolded emplace_shift_alt bind_eq_Normal unwind_eq_Normal] by auto
next
  case (Some lst)
  show ?thesis
    using assms[unfolded emplace_shift_alt Some option.case bind_eq_Normal unwind_eq_Normal]
    by (elim exE conjE) (intro exI conjI; (assumption | rule Some))
qed
section \<open>Observations on concrete worlds\<close>

lemma get_obj_w_one: "get_obj w_one 0 = Some v_one"
  by (simp add: w_one_def get_obj_def)

lemma contents_w_one: "contents w_one 0 = [Some 7, Some 8]"
  by code_simp

section \<open>Move construction\<close>

lemma Vector_move_effect:
  assumes "get_obj w src = Some v"
  shows "\<exists>w'. Vector_move src w = Normal (length (objs w)) w' \<and>
           get_obj w' (length (objs w)) = Some v \<and>
           get_obj w' src = Some \<lparr>data_m = \<lparr>buffer_m = None, capacity_m = 0\<rparr>, size_m = 0\<rparr> \<and>
           heap w' = heap w \<and> trace w' = trace w \<and> free_slots w' = free_slots w"
proof -
  have lt: "src < length (objs w)" and nth: "objs w ! src = Some v"
    using assms by (auto simp: get_obj_def split: if_splits)
  show ?thesis
    using lt nth
    by (simp add: Vector_move_def Vector_default_def Swap_def get_obj_def upd_obj_def
        RawMemory_Swap_def RawMemory_default_def nth_append nth_list_update)
qed

lemma slot_heap_cong: "heap w' = heap w \<Longrightarrow> slot w' p = slot w p"
  by (rule slot_cong_block) (simp add: get_block_def)

lemma contents_cong:
  assumes "get_obj w' a = get_obj w b" and "heap w' = heap w"
  shows "contents w' a = contents w b"
proof -
  have "slot w' p = slot w p" for p
    using assms(2) by (rule slot_heap_cong)
  then have "elem w' a = elem w b"
    using assms(1) by (intro ext) (simp add: elem_def cong: option.case_cong)
  then show ?thesis using assms(1) by (simp add: contents_def cong: option.case_cong)
qed

text \<open>
  C5.  For every existing source vector, the move constructor returns normally (it has no
  other outcome); the new object has the contents and the size the source had, the source
  is left with size 0, and no operation of the element type is invoked and no block is
  touched: the trace and the heap are those of before.
\<close>

theorem Vector_move_takes_contents:
  assumes "get_obj w src = Some v"
  shows "\<exists>this w'. Vector_move src w = Normal this w' \<and>
           contents w' this = contents w src \<and>
           map_option Size (get_obj w' this) = Some (Size v) \<and>
           map_option Size (get_obj w' src) = Some 0 \<and>
           trace w' = trace w \<and> heap w' = heap w"
proof -
  from Vector_move_effect[OF assms] obtain w' where
    m: "Vector_move src w = Normal (length (objs w)) w'"
    and g: "get_obj w' (length (objs w)) = Some v"
    and s: "get_obj w' src = Some \<lparr>data_m = \<lparr>buffer_m = None, capacity_m = 0\<rparr>, size_m = 0\<rparr>"
    and h: "heap w' = heap w" and t: "trace w' = trace w"
    by blast
  have "contents w' (length (objs w)) = contents w src"
    using g assms h by (intro contents_cong) simp_all
  then show ?thesis using m g s h t by (simp add: Size_def)
qed

theorem Vector_move_takes_contents_witness:
  "get_obj w_one 0 = Some v_one \<and>
   (\<exists>this w'. Vector_move 0 w_one = Normal this w' \<and>
      contents w' this = [Some 7, Some 8] \<and>
      map_option Size (get_obj w' this) = Some 2 \<and>
      map_option Size (get_obj w' 0) = Some 0 \<and>
      trace w' = [] \<and> heap w' = [Some [Some 7, Some 8, None]])"
  using Vector_move_takes_contents[OF get_obj_w_one] get_obj_w_one
  by (simp add: contents_w_one Size_def v_one_def) (simp add: w_one_def)

text \<open>
  C9.  After the move constructor the source has capacity 0 and a null buffer: the new
  object was default-initialised before the swap.
\<close>

theorem Vector_move_source_capacity:
  assumes "get_obj w src = Some v"
  shows "\<exists>this w'. Vector_move src w = Normal this w' \<and>
           map_option Capacity (get_obj w' src) = Some 0 \<and>
           map_option (\<lambda>x. buffer_m (data_m x)) (get_obj w' src) = Some None"
proof -
  from Vector_move_effect[OF assms] obtain w' where
    "Vector_move src w = Normal (length (objs w)) w'"
    "get_obj w' src = Some \<lparr>data_m = \<lparr>buffer_m = None, capacity_m = 0\<rparr>, size_m = 0\<rparr>"
    by blast
  then show ?thesis by (simp add: Capacity_def)
qed

theorem Vector_move_source_capacity_witness:
  "get_obj w_one 0 = Some v_one \<and>
   (\<exists>this w'. Vector_move 0 w_one = Normal this w' \<and>
      map_option Capacity (get_obj w' 0) = Some 0 \<and>
      map_option (\<lambda>x. buffer_m (data_m x)) (get_obj w' 0) = Some None)"
  using Vector_move_source_capacity[OF get_obj_w_one] get_obj_w_one by simp

section \<open>Self-assignment\<close>

text \<open>
  C8.  Assigning a vector to itself, by the copy assignment or by the move assignment,
  returns normally and leaves the whole world as it was: the size, the capacity and the
  elements of the vector are unchanged.
\<close>

theorem self_assignment_unchanged:
  "assign_copy T x x w = Normal () w \<and> assign_move x x w = Normal () w"
  by (simp add: assign_copy_def assign_move_def)

theorem self_assignment_unchanged_witness:
  "assign_copy T_copy 0 0 w_one = Normal () w_one \<and> assign_move 0 0 w_one = Normal () w_one \<and>
   contents w_one 0 = [Some 7, Some 8]"
  using self_assignment_unchanged[of T_copy 0 w_one] by (simp add: contents_w_one)

section \<open>Reserve\<close>

lemma contents_member:
  assumes "get_obj w this = Some v" and "size_m v \<le> capacity_m (data_m v)"
    and "i < size_m v" and "slot w (buffer_m (data_m v), i) = Some (Some x)"
  shows "Some x \<in> set (contents w this)"
proof -
  have "elem w this i = Some x" using assms by (simp add: elem_eq)
  moreover have "i \<in> set [0..<size_m v]" using assms(3) by simp
  ultimately show ?thesis using assms(1) by (force simp: contents_def)
qed

lemma vector_inv_w_one: "vector_inv w_one v_one"
  by (simp add: vector_inv_def w_one_def v_one_def get_block_def)

text \<open>\<^verbatim>\<open>Reserve(k)\<close> on a vector that satisfies its invariant: with \<open>k\<close> at most the capacity
  the world is unchanged; with \<open>k\<close> above the capacity, whenever it returns normally the
  capacity recorded is \<open>k\<close>, the size is unchanged and the elements are the same in the same
  order; and it does return normally when a block of \<open>k\<close> slots can be allocated (the byte
  count does not wrap) and the relocating constructor throws on no element.\<close>

lemma Reserve_effect:
  assumes "get_obj w this = Some v" and "vector_inv w v"
  shows "(k \<le> Capacity v \<longrightarrow> Reserve T this k w = Normal () w) \<and>
         (Capacity v < k \<longrightarrow>
            (\<forall>w'. Reserve T this k w = Normal () w' \<longrightarrow>
               map_option Capacity (get_obj w' this) = Some k \<and>
               map_option Size (get_obj w' this) = Some (Size v) \<and>
               contents w' this = contents w this) \<and>
            (allocatable T k w \<and> (\<forall>x. Some x \<in> set (contents w this) \<longrightarrow> \<not> relocation_throws T x) \<longrightarrow>
               (\<exists>w'. Reserve T this k w = Normal () w')))"
proof (intro conjI impI allI)
  assume "k \<le> Capacity v"
  then show "Reserve T this k w = Normal () w"
    using assms(1) by (simp add: Reserve_noop Capacity_def)
next
  fix w' assume k: "Capacity v < k" and r: "Reserve T this k w = Normal () w'"
  have k': "capacity_m (data_m v) < k" using k by (simp add: Capacity_def)
  note R = Reserve_Normal[OF assms k' r]
  have sz: "size_m v \<le> capacity_m (data_m v)" using assms(2) by (simp add: vector_inv_def)
  show "map_option Capacity (get_obj w' this) = Some k" by (simp add: R(1) Capacity_def)
  show "map_option Size (get_obj w' this) = Some (Size v)" by (simp add: R(1) Size_def)
  show "contents w' this = contents w this"
    using sz k' R(2) by (intro contents_eqI[OF R(1) assms(1)]) simp_all
next
  assume k: "Capacity v < k"
    and a: "allocatable T k w \<and> (\<forall>x. Some x \<in> set (contents w this) \<longrightarrow> \<not> relocation_throws T x)"
  have sz: "size_m v \<le> capacity_m (data_m v)" using assms(2) by (simp add: vector_inv_def)
  have "\<not> relocation_throws T x" if "i < size_m v" "slot w (buffer_m (data_m v), i) = Some (Some x)" for i x
    using contents_member[OF assms(1) sz that] a by blast
  then show "\<exists>w'. Reserve T this k w = Normal () w'"
    using k a by (intro Reserve_total[OF assms]) (simp_all add: Capacity_def)
qed

text \<open>
  C6.  \<^verbatim>\<open>Allocate(n)\<close> computes the byte count \<^verbatim>\<open>n * sizeof(T)\<close> in \<^verbatim>\<open>size_t\<close> and does
  not check that it wraps.  For an element type of eight bytes, \<^verbatim>\<open>Reserve(2^61 + 1)\<close> asks
  \<^verbatim>\<open>operator new\<close> for eight bytes, a block of one slot, and records the capacity
  \<open>2^61 + 1\<close>.  On the vector \<open>5, 13\<close>, which satisfies its invariant, the relocation of
  the second element then constructs behind the end of the new block: the behaviour is
  undefined, the capacity is not set and the elements are not kept.  On the vector of the
  one element \<open>7\<close> the call returns: the capacity it reports is \<open>2^61 + 1\<close>, the block has
  one slot, the invariant is lost, and the next \<^verbatim>\<open>PushBack\<close> constructs behind the end of
  the block.
\<close>

theorem Reserve_byte_count_wraps:
  "get_obj w_full 0 = Some v_full \<and> vector_inv w_full v_full \<and> Capacity v_full = 2 \<and>
   (2 ^ 61 + 1 :: nat) < 2 ^ 64 \<and> sizeof_T T_nothrow = 8 \<and> alloc_slots T_nothrow (2 ^ 61 + 1) = 1 \<and>
   Reserve T_nothrow 0 (2 ^ 61 + 1) w_full = Undefined \<and>
   get_obj w_single 0 = Some v_single \<and> vector_inv w_single v_single \<and>
   (\<exists>w' v'. Reserve T_nothrow 0 (2 ^ 61 + 1) w_single = Normal () w' \<and>
      get_obj w' 0 = Some v' \<and> Capacity v' = 2 ^ 61 + 1 \<and> Size v' = 1 \<and>
      get_block w' 1 = Some [Some 7] \<and> \<not> vector_inv w' v' \<and>
      PushBack_copy T_nothrow 0 8 w' = Undefined)"
proof -
  let ?v' = "\<lparr>data_m = \<lparr>buffer_m = Some 1, capacity_m = 2 ^ 61 + 1\<rparr>, size_m = 1\<rparr>"
  let ?w' = "\<lparr>heap = [None, Some [Some 7]], free_slots = 10, objs = [Some ?v'],
     trace = [MoveCtor, Dtor]\<rparr> :: nat world"
  have a: "get_obj w_full 0 = Some v_full" "vector_inv w_full v_full" "Capacity v_full = 2"
    "(2 ^ 61 + 1 :: nat) < 2 ^ 64" "sizeof_T T_nothrow = 8" "alloc_slots T_nothrow (2 ^ 61 + 1) = 1"
    "get_obj w_single 0 = Some v_single" "vector_inv w_single v_single"
    by code_simp+
  have b: "Reserve T_nothrow 0 (2 ^ 61 + 1) w_full = Undefined" by code_simp
  have c: "Reserve T_nothrow 0 (2 ^ 61 + 1) w_single = Normal () ?w'" by code_simp
  have d: "get_obj ?w' 0 = Some ?v'" "Capacity ?v' = 2 ^ 61 + 1" "Size ?v' = 1"
    "get_block ?w' 1 = Some [Some 7]" "\<not> vector_inv ?w' ?v'"
    by code_simp+
  have e: "PushBack_copy T_nothrow 0 8 ?w' = Undefined" by code_simp
  show ?thesis using a b c d e by simp
qed

section \<open>Copy construction\<close>

lemma Vector_copy_unfold:
  "Vector_copy T other w = (case get_obj w other of
       None \<Rightarrow> Undefined
     | Some ov \<Rightarrow>
         bind (RawMemory_ctor T (size_m ov) w) (\<lambda>d w1.
         bind (unwind
                (if False then uninitialized_move_n T (GetAddress (data_m ov)) (size_m ov) (GetAddress d) w1
                 else uninitialized_copy_n T (GetAddress (data_m ov)) (size_m ov) (GetAddress d) w1)
                (RawMemory_dtor d)) (\<lambda>_ w2.
         Normal (length (objs w2)) (w2\<lparr>objs := objs w2 @ [Some \<lparr>data_m = d, size_m = size_m ov\<rparr>]\<rparr>))))"
  unfolding Vector_copy_def uninitialized_move_n_const_def uninitialized_copy_n_def if_cancel if_False
  by (rule refl)

lemma get_obj_append:
  "get_obj (w\<lparr>objs := objs w @ [x]\<rparr>) i =
     (if i = length (objs w) then x else get_obj w i)"
  by (auto simp: get_obj_def nth_append)

lemma slot_objs_update [simp]: "slot (w\<lparr>objs := os\<rparr>) p = slot w p"
  by (rule slot_heap_cong) simp

lemma Vector_copy_Normal:
  assumes g: "get_obj w src = Some v" and inv: "vector_inv w v"
    and r: "Vector_copy T src w = Normal c w'"
  shows "c = length (objs w)"
    and "get_obj w' c = Some \<lparr>data_m = \<lparr>buffer_m = (if size_m v = 0 then None else Some (length (heap w))),
                                         capacity_m = size_m v\<rparr>, size_m = size_m v\<rparr>"
    and "i \<noteq> c \<Longrightarrow> get_obj w' i = get_obj w i"
    and "fst p \<noteq> Some (length (heap w)) \<Longrightarrow> slot w' p = slot w p"
    and "j < size_m v \<Longrightarrow> slot w' (Some (length (heap w)), j) = slot w (buffer_m (data_m v), j)"
proof -
  let ?old = "GetAddress (data_m v)"
  let ?na = "length (heap w)"
  let ?n = "size_m v"
  from r g obtain d w1 w2 where
    a: "RawMemory_ctor T ?n w = Normal d w1"
    and rel: "(if False then uninitialized_move_n T ?old ?n (GetAddress d) w1
              else uninitialized_copy_n T ?old ?n (GetAddress d) w1) = Normal () w2"
    and c: "c = length (objs w2)"
    and w': "w' = w2\<lparr>objs := objs w2 @ [Some \<lparr>data_m = d, size_m = ?n\<rparr>]\<rparr>"
    unfolding Vector_copy_unfold by (auto simp: bind_eq_Normal)
  note A = RawMemory_ctor_Normal[OF a]
  have fr: "buffer_m (data_m v) \<noteq> Some ?na" by (rule vector_inv_fresh[OF inv])
  have o2: "objs w2 = objs w"
  proof (cases "?n = 0")
    case True
    then show ?thesis using rel A(2) by (simp add: uninitialized_copy_n_def)
  next
    case False
    then have "fst ?old \<noteq> fst (GetAddress d)" using fr A(1) by simp
    from relocate_Normal(1)[OF rel this] A(2) show ?thesis by simp
  qed
  show "c = length (objs w)" using c o2 by simp
  show "get_obj w' c = Some \<lparr>data_m = \<lparr>buffer_m = (if ?n = 0 then None else Some ?na),
                                         capacity_m = ?n\<rparr>, size_m = ?n\<rparr>"
    using A(1) by (simp add: w' c get_obj_append)
  show "get_obj w' i = get_obj w i" if "i \<noteq> c"
    using that get_obj_cong[OF o2] by (simp add: w' c get_obj_append)
  have s1: "slot w1 q = (if ?n \<noteq> 0 \<and> fst q = Some ?na then (if snd q < alloc_slots T ?n then Some None else None) else slot w q)" for q
    by (rule A(4))
  have s2: "slot w2 q = (if in_range (GetAddress d) ?n q then slot w1 (buffer_m (data_m v), snd q) else slot w1 q)" for q
  proof (cases "?n = 0")
    case True
    then show ?thesis using rel by (simp add: uninitialized_copy_n_def)
  next
    case False
    have m: "uninitialized_n (copy_construct_at T) ?old (GetAddress d) 0 ?n w1 = Normal () w2"
      using rel by (simp add: uninitialized_copy_n_def)
    have dj: "fst ?old \<noteq> fst (GetAddress d) \<or> snd ?old + ?n \<le> snd (GetAddress d)"
      using False fr A(1) by simp
    from uninitialized_copy_Normal[OF m dj]
    have "slot w2 q = (if in_range (ptr_add (GetAddress d) 0) ?n q
                            then slot w1 (fst ?old, snd ?old + (snd q - snd (GetAddress d))) else slot w1 q)"
      by blast
    then show ?thesis by simp
  qed
  show "slot w' p = slot w p" if "fst p \<noteq> Some ?na"
    using that A(1) by (auto simp: w' s2 s1 in_range_GetAddress)
  show "slot w' (Some ?na, j) = slot w (buffer_m (data_m v), j)" if "j < ?n"
    using that A(1) fr by (auto simp: w' s2 s1 in_range_GetAddress)
qed

lemma Vector_copy_total:
  assumes g: "get_obj w src = Some v" and inv: "vector_inv w v"
    and mem: "allocatable T (size_m v) w"
    and nt: "\<And>i x. i < size_m v \<Longrightarrow> slot w (buffer_m (data_m v), i) = Some (Some x) \<Longrightarrow> \<not> copy_throws T x"
  shows "\<exists>c w'. Vector_copy T src w = Normal c w'"
proof -
  let ?old = "GetAddress (data_m v)"
  let ?na = "length (heap w)"
  let ?n = "size_m v"
  let ?d = "\<lparr>buffer_m = (if ?n = 0 then None else Some ?na), capacity_m = ?n\<rparr>"
  from RawMemory_ctor_total[OF mem] obtain w1 where a: "RawMemory_ctor T ?n w = Normal ?d w1"
    by auto
  note A = RawMemory_ctor_Normal[OF a]
  have fr: "buffer_m (data_m v) \<noteq> Some ?na" by (rule vector_inv_fresh[OF inv])
  have "\<exists>w2. (if False then uninitialized_move_n T ?old ?n (GetAddress ?d) w1
              else uninitialized_copy_n T ?old ?n (GetAddress ?d) w1) = Normal () w2"
  proof (cases "?n = 0")
    case True
    then show ?thesis by (simp add: uninitialized_copy_n_def)
  next
    case False
    have dj: "fst ?old \<noteq> fst (GetAddress ?d)" using False fr by simp
    have src: "\<exists>x. slot w1 q = Some (Some x) \<and> \<not> (if False then move_throws T x else copy_throws T x)"
      if ir: "in_range ?old ?n q" for q
    proof -
      obtain j where q: "q = (buffer_m (data_m v), j)" "j < ?n"
        using ir by (cases q) (auto simp: in_range_GetAddress)
      from vector_inv_live[OF inv q(2)] obtain x where "slot w (buffer_m (data_m v), j) = Some (Some x)"
        by (auto simp: ptr_add_def GetAddress_def)
      then show ?thesis using nt[OF q(2)] fr by (auto simp: RawMemory_ctor_exact[OF a mem] q)
    qed
    have dst: "slot w1 q \<noteq> None" if "in_range (GetAddress ?d) ?n q" for q
      using that False by (cases q) (auto simp: in_range_GetAddress RawMemory_ctor_exact[OF a mem])
    from relocate_total[of ?old ?n w1 False T "GetAddress ?d", OF src dst dj] show ?thesis .
  qed
  then show ?thesis using g a unfolding Vector_copy_unfold by auto
qed

lemma store_elem_Normal:
  assumes "store_elem this i x w = Normal u w'" and "get_obj w this = Some v"
  shows "i < size_m v" and "i < capacity_m (data_m v)" and "w' = set_slot (buffer_m (data_m v), i) (Some x) w"
  using assms
  by (auto simp: store_elem_def Vector_index_def RawMemory_index_def ptr_add_def GetAddress_def
      split: option.splits if_splits)


lemma store_elem_total:
  assumes "get_obj w this = Some v" and "i < size_m v" and "size_m v \<le> capacity_m (data_m v)"
    and "slot w (buffer_m (data_m v), i) = Some (Some y)"
  shows "\<exists>w'. store_elem this i x w = Normal () w'"
  using assms
  by (simp add: store_elem_def Vector_index_def RawMemory_index_def ptr_add_def GetAddress_def)

lemma store_elem_other:
  assumes s: "store_elem a i x w = Normal u w'" and ga: "get_obj w a = Some va"
    and gb: "get_obj w b = Some vb" and sb: "size_m vb \<le> capacity_m (data_m vb)"
    and ne: "size_m va \<noteq> 0 \<Longrightarrow> size_m vb \<noteq> 0 \<Longrightarrow> buffer_m (data_m va) \<noteq> buffer_m (data_m vb)"
  shows "contents w' b = contents w b"
proof -
  note S = store_elem_Normal[OF s ga]
  have g': "get_obj w' b = Some vb" using gb by (simp add: S(3))
  show ?thesis
  proof (rule contents_eqI[OF g' gb refl sb sb])
    fix j assume "j < size_m vb"
    then have "buffer_m (data_m va) \<noteq> buffer_m (data_m vb)" using ne S(1) by auto
    then show "slot w' (buffer_m (data_m vb), j) = slot w (buffer_m (data_m vb), j)"
      by (simp add: S(3) slot_set_slot)
  qed
qed

text \<open>
  C4.  For a source vector that satisfies its invariant, whenever the copy constructor
  returns normally the new object is another object than the source, its size and its
  capacity are the size of the source, its elements are those of the source in order, and
  the source object and its elements are unchanged.  The two are independent: a change of
  an element of one through \<^verbatim>\<open>operator[]\<close> is possible for every index below the size and
  leaves the contents of the other as they were.  The constructor does return normally when
  a block of as many slots as the source has elements can be allocated and copying no
  element throws.
\<close>

theorem Vector_copy_deep:
  assumes "get_obj w src = Some v" and "vector_inv w v"
  shows "(\<forall>c w'. Vector_copy T src w = Normal c w' \<longrightarrow>
            c \<noteq> src \<and>
            map_option Size (get_obj w' c) = Some (Size v) \<and>
            map_option Capacity (get_obj w' c) = Some (Size v) \<and>
            contents w' c = contents w src \<and>
            get_obj w' src = Some v \<and> contents w' src = contents w src \<and>
            (\<forall>i x. i < Size v \<longrightarrow>
               (\<exists>w''. store_elem c i x w' = Normal () w'' \<and> contents w'' src = contents w' src) \<and>
               (\<exists>w''. store_elem src i x w' = Normal () w'' \<and> contents w'' c = contents w' c))) \<and>
         (allocatable T (Size v) w \<and> (\<forall>x. Some x \<in> set (contents w src) \<longrightarrow> \<not> copy_throws T x) \<longrightarrow>
            (\<exists>c w'. Vector_copy T src w = Normal c w'))"
proof (intro conjI allI impI)
  fix c w' assume r: "Vector_copy T src w = Normal c w'"
  note V = Vector_copy_Normal[OF assms r]
  let ?na = "length (heap w)"
  let ?v' = "\<lparr>data_m = \<lparr>buffer_m = (if size_m v = 0 then None else Some ?na),
                                         capacity_m = size_m v\<rparr>, size_m = size_m v\<rparr>"
  have sz: "size_m v \<le> capacity_m (data_m v)" using assms(2) by (simp add: vector_inv_def)
  have fr: "buffer_m (data_m v) \<noteq> Some ?na" by (rule vector_inv_fresh[OF assms(2)])
  have lt: "src < length (objs w)" using assms(1) by (auto simp: get_obj_def split: if_splits)
  show ne: "c \<noteq> src" using lt V(1) by simp
  show "map_option Size (get_obj w' c) = Some (Size v)" by (simp add: V(2) Size_def)
  show "map_option Capacity (get_obj w' c) = Some (Size v)" by (simp add: V(2) Size_def Capacity_def)
  have gs: "get_obj w' src = Some v" using V(3)[of src] ne assms(1) by simp
  show "get_obj w' src = Some v" by (rule gs)
  have cc: "contents w' c = contents w src"
  proof (rule contents_eqI[OF V(2) assms(1) _ sz])
    fix i assume "i < size_m v"
    then show "slot w' (buffer_m (data_m ?v'), i) = slot w (buffer_m (data_m v), i)"
      using V(5)[of i] by simp
  qed simp_all
  show "contents w' c = contents w src" by (rule cc)
  have cs: "contents w' src = contents w src"
  proof (rule contents_eqI[OF gs assms(1) refl sz sz])
    fix i assume "i < size_m v"
    show "slot w' (buffer_m (data_m v), i) = slot w (buffer_m (data_m v), i)"
      using fr by (intro V(4)) simp
  qed
  show "contents w' src = contents w src" by (rule cs)
  have bne: "size_m v \<noteq> 0 \<Longrightarrow> buffer_m (data_m ?v') \<noteq> buffer_m (data_m v)"
    using fr by auto
  show "\<exists>w''. store_elem c i x w' = Normal () w'' \<and> contents w'' src = contents w' src"
    if "i < Size v" for i x
  proof -
    have i: "i < size_m v" using that by (simp add: Size_def)
    from vector_inv_live[OF assms(2) i] obtain y where "slot w (buffer_m (data_m v), i) = Some (Some y)"
      by (auto simp: ptr_add_def GetAddress_def)
    then have "slot w' (buffer_m (data_m ?v'), i) = Some (Some y)" using V(5)[OF i] i by simp
    from store_elem_total[OF V(2) _ _ this, of x] i obtain w'' where
      s: "store_elem c i x w' = Normal () w''" by auto
    have "contents w'' src = contents w' src"
      using bne by (intro store_elem_other[OF s V(2) gs sz]) auto
    then show ?thesis using s by blast
  qed
  show "\<exists>w''. store_elem src i x w' = Normal () w'' \<and> contents w'' c = contents w' c"
    if "i < Size v" for i x
  proof -
    have i: "i < size_m v" using that by (simp add: Size_def)
    from vector_inv_live[OF assms(2) i] obtain y where "slot w (buffer_m (data_m v), i) = Some (Some y)"
      by (auto simp: ptr_add_def GetAddress_def)
    then have "slot w' (buffer_m (data_m v), i) = Some (Some y)" using V(4)[of "(buffer_m (data_m v), i)"] fr by simp
    from store_elem_total[OF gs i sz this, of x] obtain w'' where
      s: "store_elem src i x w' = Normal () w''" by auto
    have "contents w'' c = contents w' c"
      using bne by (intro store_elem_other[OF s gs V(2)]) auto
    then show ?thesis using s by blast
  qed
next
  assume a: "allocatable T (Size v) w \<and> (\<forall>x. Some x \<in> set (contents w src) \<longrightarrow> \<not> copy_throws T x)"
  have sz: "size_m v \<le> capacity_m (data_m v)" using assms(2) by (simp add: vector_inv_def)
  have "\<not> copy_throws T x" if "i < size_m v" "slot w (buffer_m (data_m v), i) = Some (Some x)" for i x
    using contents_member[OF assms(1) sz that] a by blast
  then show "\<exists>c w'. Vector_copy T src w = Normal c w'"
    using a by (intro Vector_copy_total[OF assms]) (simp_all add: Size_def)
qed

theorem Vector_copy_deep_witness:
  "get_obj w_one 0 = Some v_one \<and> vector_inv w_one v_one \<and>
   (\<exists>c w'. Vector_copy T_copy 0 w_one = Normal c w' \<and> c \<noteq> 0 \<and>
      map_option Size (get_obj w' c) = Some 2 \<and> map_option Capacity (get_obj w' c) = Some 2 \<and>
      contents w' c = [Some 7, Some 8] \<and> contents w' 0 = [Some 7, Some 8] \<and>
      (\<exists>w''. store_elem c 1 99 w' = Normal () w'' \<and> contents w'' 0 = [Some 7, Some 8]))"
proof -
  have c: "Size v_one = 2" by (simp add: Size_def v_one_def)
  have f: "allocatable T_copy 2 w_one" by (simp add: allocatable_def T_copy_def w_one_def)
  have t: "\<forall>x. Some x \<in> set (contents w_one 0) \<longrightarrow> \<not> copy_throws T_copy x"
    by (simp add: contents_w_one T_copy_def)
  note D = Vector_copy_deep[OF get_obj_w_one vector_inv_w_one, of T_copy, unfolded c contents_w_one]
  from D[THEN conjunct2] f t obtain d w' where r: "Vector_copy T_copy 0 w_one = Normal d w'"
    by (auto simp: contents_w_one)
  from D[THEN conjunct1, rule_format, OF r] have
    p: "d \<noteq> 0" "map_option Size (get_obj w' d) = Some 2" "map_option Capacity (get_obj w' d) = Some 2"
      "contents w' d = [Some 7, Some 8]" "contents w' 0 = [Some 7, Some 8]"
    and q: "\<And>i x. i < 2 \<Longrightarrow> \<exists>w''. store_elem d i x w' = Normal () w'' \<and> contents w'' 0 = contents w' 0"
    by blast+
  from q[of 1 99] obtain w'' where "store_elem d 1 99 w' = Normal () w''" "contents w'' 0 = contents w' 0"
    by auto
  then show ?thesis using r p get_obj_w_one vector_inv_w_one by auto
qed

section \<open>Growth\<close>

lemma emplace_grow_obj:
  assumes r: "emplace_grow T this v pos cursor rest args w = Normal u w'" and g: "get_obj w this = Some v"
  shows "get_obj w' this = Some (v\<lparr>data_m :=
            \<lparr>buffer_m = Some (length (heap w)), capacity_m = (if size_m v = 0 then 1 else size_m v * 2)\<rparr>\<rparr>)"
    and "i \<noteq> this \<Longrightarrow> get_obj w' i = get_obj w i"
proof -
  let ?nc = "if size_m v = 0 then 1 else size_m v * 2"
  let ?mv = "is_nothrow_move_constructible T \<or> \<not> is_copy_constructible T"
  from emplace_grow_Normal[OF r] obtain nd w1 u2 w2 u3 w3 u4 w4 u5 w5 where
    a: "RawMemory_ctor T ?nc w = Normal nd w1"
    and c: "construct_at T (ptr_add (GetAddress nd) cursor) args w1 = Normal u2 w2"
    and r1: "(if ?mv then uninitialized_move_n T (Vector_begin v) cursor (GetAddress nd) w2
       else uninitialized_copy_n T (Vector_begin v) cursor (GetAddress nd) w2) = Normal u3 w3"
    and r2: "(if ?mv then uninitialized_move_n T pos rest (ptr_add (GetAddress nd) (cursor + 1)) w3
       else uninitialized_copy_n T pos rest (ptr_add (GetAddress nd) (cursor + 1)) w3) = Normal u4 w4"
    and dn: "destroy_n (GetAddress (data_m v)) (size_m v) (upd_obj this (\<lambda>x. x\<lparr>data_m := nd\<rparr>) w4) = Normal u5 w5"
    and de: "RawMemory_dtor (data_m v) w5 = Normal u w'"
    by (elim exE conjE)
  have nd: "nd = \<lparr>buffer_m = Some (length (heap w)), capacity_m = ?nc\<rparr>"
    using RawMemory_ctor_Normal(1)[OF a] by simp
  have "objs w4 = objs w"
    using RawMemory_ctor_Normal(2)[OF a] same_blocks_objs[OF construct_at_blocks[OF disjI1, OF c]]
      same_blocks_objs[OF relocate_blocks[OF disjI1, OF r1]]
      same_blocks_objs[OF relocate_blocks[OF disjI1, OF r2]] by simp
  note g4 = get_obj_cong[OF this]
  have "objs w' = objs (upd_obj this (\<lambda>x. x\<lparr>data_m := nd\<rparr>) w4)"
    using RawMemory_dtor_Normal(1)[OF de] same_blocks_objs[OF destroy_n_blocks[OF dn]] by simp
  note g' = get_obj_cong[OF this]
  show "get_obj w' this = Some (v\<lparr>data_m := \<lparr>buffer_m = Some (length (heap w)), capacity_m = ?nc\<rparr>\<rparr>)"
    using g by (simp add: g' get_obj_upd_obj g4 nd)
  show "get_obj w' i = get_obj w i" if "i \<noteq> this"
    using that by (simp add: g' get_obj_upd_obj g4)
qed

lemma backward_Normal:
  assumes "(if ma then move_backward T first n d_last w else copy_backward T first n d_last w) = Normal u w'"
  shows "same_blocks w w'"
    and "trace w' = trace w @ replicate n (if ma then MoveAssign else CopyAssign)"
    and "fst z \<noteq> fst d_last \<Longrightarrow> fst z \<noteq> fst first \<Longrightarrow> slot w' z = slot w z"
proof -
  show "same_blocks w w'"
  proof (cases ma)
    case True
    then have "move_backward T first n d_last w = Normal u w'" using assms by simp
    then show ?thesis by (rule move_backward_Normal(1))
  next
    case False
    then have "copy_backward T first n d_last w = Normal u w'" using assms by simp
    then show ?thesis by (rule copy_backward_Normal(1))
  qed
  show "trace w' = trace w @ replicate n (if ma then MoveAssign else CopyAssign)"
  proof (cases ma)
    case True
    then have "move_backward T first n d_last w = Normal u w'" using assms by simp
    then show ?thesis using True by (simp add: move_backward_Normal(2))
  next
    case False
    then have "copy_backward T first n d_last w = Normal u w'" using assms by simp
    then show ?thesis using False by (simp add: copy_backward_Normal(2))
  qed
  show "slot w' z = slot w z" if "fst z \<noteq> fst d_last" "fst z \<noteq> fst first"
  proof (cases ma)
    case True
    then have "move_backward T first n d_last w = Normal u w'" using assms by simp
    then show ?thesis using that by (rule move_backward_Normal(3))
  next
    case False
    then have "copy_backward T first n d_last w = Normal u w'" using assms by simp
    then show ?thesis using that by (rule copy_backward_Normal(3))
  qed
qed

lemma assign_at_Normal:
  assumes "(if ma then move_assign_at T dst src w else copy_assign_at T dst src w) = Normal u w'"
  shows "same_blocks w w'"
    and "trace w' = trace w @ [if ma then MoveAssign else CopyAssign]"
    and "z \<noteq> dst \<Longrightarrow> z \<noteq> src \<Longrightarrow> slot w' z = slot w z"
    and "dst \<noteq> src \<Longrightarrow> slot w' dst = slot w src"
    and "\<exists>x. slot w src = Some (Some x)"
proof -
  have "same_blocks w w' \<and> trace w' = trace w @ [if ma then MoveAssign else CopyAssign] \<and>
    (z \<noteq> dst \<and> z \<noteq> src \<longrightarrow> slot w' z = slot w z) \<and> (dst \<noteq> src \<longrightarrow> slot w' dst = slot w src) \<and>
    (\<exists>x. slot w src = Some (Some x))"
  proof (cases ma)
    case True
    then have m: "move_assign_at T dst src w = Normal u w'" using assms by simp
    from move_assign_at_Normal[OF m] move_assign_at_blocks[OF m] True show ?thesis
      by (auto simp: slot_set_slot)
  next
    case False
    then have m: "copy_assign_at T dst src w = Normal u w'" using assms by simp
    from copy_assign_at_Normal[OF m] copy_assign_at_blocks[OF m] False show ?thesis
      by (auto simp: slot_set_slot)
  qed
  then show "same_blocks w w'"
    and "trace w' = trace w @ [if ma then MoveAssign else CopyAssign]"
    and "z \<noteq> dst \<Longrightarrow> z \<noteq> src \<Longrightarrow> slot w' z = slot w z"
    and "dst \<noteq> src \<Longrightarrow> slot w' dst = slot w src"
    and "\<exists>x. slot w src = Some (Some x)"
    by blast+
qed

lemma emplace_shift_objs:
  assumes r: "emplace_shift T v pos cursor rest args w = Normal u w'"
  shows "objs w' = objs w"
proof -
  let ?ma = "is_nothrow_move_assignable T \<or> \<not> is_copy_assignable T"
  from emplace_shift_Normal[OF r] obtain nv w1 u2 w2 lst u3 w3 u4 w4 u5 w5 u6 w6 where
    a: "RawMemory_ctor T 1 w = Normal nv w1"
    and c: "construct_at T (GetAddress nv) args w1 = Normal u2 w2"
    and s1: "(if ?ma then uninitialized_move_n T lst 1 (Vector_end v) w2
       else uninitialized_copy_n T lst 1 (Vector_end v) w2) = Normal u3 w3"
    and s2: "(if ?ma then move_backward T pos (rest - 1) (Vector_end v) w3
       else copy_backward T pos (rest - 1) (Vector_end v) w3) = Normal u4 w4"
    and s3: "(if ?ma then move_assign_at T (ptr_add (GetAddress (data_m v)) cursor) (GetAddress nv) w4
       else copy_assign_at T (ptr_add (GetAddress (data_m v)) cursor) (GetAddress nv) w4) = Normal u5 w5"
    and dn: "destroy_n (GetAddress nv) 1 w5 = Normal u6 w6"
    and de: "RawMemory_dtor nv w6 = Normal u w'"
    by (elim exE conjE)
  have "objs w4 = objs w3"
    by (rule same_blocks_objs[OF backward_Normal(1)[OF s2]])
  moreover have "objs w5 = objs w4"
    by (rule same_blocks_objs[OF assign_at_Normal(1)[OF s3]])
  ultimately show ?thesis
    using RawMemory_ctor_Normal(2)[OF a] same_blocks_objs[OF construct_at_blocks[OF disjI1, OF c]]
      same_blocks_objs[OF relocate_blocks[OF disjI1, OF s1]]
      RawMemory_dtor_Normal(1)[OF de] same_blocks_objs[OF destroy_n_blocks[OF dn]] by simp
qed




lemma EmplaceBack_Normal:
  assumes "EmplaceBack T this args w = Normal p w'" and "get_obj w this = Some v"
  shows "\<exists>u5 w5. append_new T this v args w = Normal u5 w5 \<and>
           w' = upd_obj this (\<lambda>x. x\<lparr>size_m := size_m x + 1\<rparr>) w5"
    and "get_obj w' this = Some (v\<lparr>data_m := (if size_m v = Capacity v
            then \<lparr>buffer_m = Some (length (heap w)), capacity_m = (if size_m v = 0 then 1 else size_m v * 2)\<rparr>
            else data_m v), size_m := size_m v + 1\<rparr>)"
    and "p = ptr_add (GetAddress (if size_m v = Capacity v
            then \<lparr>buffer_m = Some (length (heap w)), capacity_m = (if size_m v = 0 then 1 else size_m v * 2)\<rparr>
            else data_m v)) (size_m v)"
proof -
  from assms obtain u5 w5 where a: "append_new T this v args w = Normal u5 w5"
    and t: "(case get_obj (upd_obj this (\<lambda>x. x\<lparr>size_m := size_m x + 1\<rparr>) w5) this of
            None \<Rightarrow> Undefined
          | Some v' \<Rightarrow> (case RawMemory_index (data_m v') (size_m v' - 1) of
                None \<Rightarrow> Undefined
              | Some p \<Rightarrow> Normal p (upd_obj this (\<lambda>x. x\<lparr>size_m := size_m x + 1\<rparr>) w5))) = Normal p w'"
    by (auto simp: EmplaceBack_append_new bind_eq_Normal)
  note o = append_new_obj(1)[OF a assms(2)]
  from t have w': "w' = upd_obj this (\<lambda>x. x\<lparr>size_m := size_m x + 1\<rparr>) w5"
    and p: "p = ptr_add (GetAddress (if size_m v = Capacity v
            then \<lparr>buffer_m = Some (length (heap w)), capacity_m = (if size_m v = 0 then 1 else size_m v * 2)\<rparr>
            else data_m v)) (size_m v)"
    by (auto simp: get_obj_upd_obj o RawMemory_index_def split: if_splits)
  show "\<exists>u5 w5. append_new T this v args w = Normal u5 w5 \<and>
           w' = upd_obj this (\<lambda>x. x\<lparr>size_m := size_m x + 1\<rparr>) w5" using a w' by blast
  show "get_obj w' this = Some (v\<lparr>data_m := (if size_m v = Capacity v
            then \<lparr>buffer_m = Some (length (heap w)), capacity_m = (if size_m v = 0 then 1 else size_m v * 2)\<rparr>
            else data_m v), size_m := size_m v + 1\<rparr>)"
    by (simp add: w' get_obj_upd_obj o)
  show "p = ptr_add (GetAddress (if size_m v = Capacity v
            then \<lparr>buffer_m = Some (length (heap w)), capacity_m = (if size_m v = 0 then 1 else size_m v * 2)\<rparr>
            else data_m v)) (size_m v)" by (rule p)
qed


lemma distance_Some:
  "distance p q = Some n \<longleftrightarrow> fst p = fst q \<and> snd p \<le> snd q \<and> n = snd q - snd p"
  by (auto simp: distance_def)

text \<open>The cases of \<^verbatim>\<open>Emplace\<close> that return normally.\<close>

lemma Emplace_Normal:
  assumes r: "Emplace T this pos args w = Normal p w'" and g: "get_obj w this = Some v"
  shows "fst pos = buffer_m (data_m v) \<and> snd pos \<le> size_m v"
    and "(snd pos = size_m v \<and> (\<exists>q. EmplaceBack T this args w = Normal q w')) \<or>
         (snd pos < size_m v \<and> size_m v = Capacity v \<and>
            (\<exists>u w7. emplace_grow T this v pos (snd pos) (size_m v - snd pos) args w = Normal u w7 \<and>
                     w' = upd_obj this (\<lambda>x. x\<lparr>size_m := size_m x + 1\<rparr>) w7)) \<or>
         (snd pos < size_m v \<and> size_m v \<noteq> Capacity v \<and>
            (\<exists>u w7. emplace_shift T v pos (snd pos) (size_m v - snd pos) args w = Normal u w7 \<and>
                     w' = upd_obj this (\<lambda>x. x\<lparr>size_m := size_m x + 1\<rparr>) w7))"
    and "get_obj w' this = Some (v\<lparr>data_m := (if size_m v = Capacity v
            then \<lparr>buffer_m = Some (length (heap w)), capacity_m = (if size_m v = 0 then 1 else size_m v * 2)\<rparr>
            else data_m v), size_m := size_m v + 1\<rparr>)"
    and "\<exists>v'. get_obj w' this = Some v' \<and> p = ptr_add (Vector_begin v') (snd pos)"
proof -
  let ?v' = "v\<lparr>data_m := (if size_m v = Capacity v
            then \<lparr>buffer_m = Some (length (heap w)), capacity_m = (if size_m v = 0 then 1 else size_m v * 2)\<rparr>
            else data_m v), size_m := size_m v + 1\<rparr>"
  from r g obtain cursor rest where
    dc: "distance (Vector_begin v) pos = Some cursor" and dr: "distance pos (Vector_end v) = Some rest"
    unfolding Emplace_unfold by (auto split: option.splits prod.splits)
  have pos: "fst pos = buffer_m (data_m v)" "snd pos \<le> size_m v" "cursor = snd pos" "rest = size_m v - snd pos"
    using dc dr by (auto simp: distance_Some Vector_begin_def Vector_end_def)
  show "fst pos = buffer_m (data_m v) \<and> snd pos \<le> size_m v" using pos by simp
  from r g dc dr obtain u8 w8 where
    b: "(if rest = 0 then bind (EmplaceBack T this args w) (\<lambda>_ w'. Normal () w')
                 else
                   bind (if size_m v = Capacity v then emplace_grow T this v pos cursor rest args w
                         else emplace_shift T v pos cursor rest args w) (\<lambda>_ w7.
                   Normal () (upd_obj this (\<lambda>x. x\<lparr>size_m := size_m x + 1\<rparr>) w7))) = Normal u8 w8"
    and t: "(case get_obj w8 this of
              None \<Rightarrow> Undefined
            | Some v' \<Rightarrow> Normal (ptr_add (GetAddress (data_m v')) cursor) w8) = Normal p w'"
    unfolding Emplace_unfold by (auto simp: bind_eq_Normal)
  from t have w8: "w8 = w'" by (auto split: option.splits)
  have cases: "(snd pos = size_m v \<and> (\<exists>q. EmplaceBack T this args w = Normal q w')) \<or>
         (snd pos < size_m v \<and> size_m v = Capacity v \<and>
            (\<exists>u w7. emplace_grow T this v pos (snd pos) (size_m v - snd pos) args w = Normal u w7 \<and>
                     w' = upd_obj this (\<lambda>x. x\<lparr>size_m := size_m x + 1\<rparr>) w7)) \<or>
         (snd pos < size_m v \<and> size_m v \<noteq> Capacity v \<and>
            (\<exists>u w7. emplace_shift T v pos (snd pos) (size_m v - snd pos) args w = Normal u w7 \<and>
                     w' = upd_obj this (\<lambda>x. x\<lparr>size_m := size_m x + 1\<rparr>) w7))"
  proof (cases "rest = 0")
    case True
    then show ?thesis using b pos by (auto simp: bind_eq_Normal w8)
  next
    case False
    then have lt: "snd pos < size_m v" using pos by simp
    show ?thesis
    proof (cases "size_m v = Capacity v")
      case True
      then show ?thesis using b False lt pos(3,4) by (auto simp: bind_eq_Normal w8)
    next
      case F: False
      then show ?thesis using b False lt pos(3,4) by (auto simp: bind_eq_Normal w8)
    qed
  qed
  show "(snd pos = size_m v \<and> (\<exists>q. EmplaceBack T this args w = Normal q w')) \<or>
         (snd pos < size_m v \<and> size_m v = Capacity v \<and>
            (\<exists>u w7. emplace_grow T this v pos (snd pos) (size_m v - snd pos) args w = Normal u w7 \<and>
                     w' = upd_obj this (\<lambda>x. x\<lparr>size_m := size_m x + 1\<rparr>) w7)) \<or>
         (snd pos < size_m v \<and> size_m v \<noteq> Capacity v \<and>
            (\<exists>u w7. emplace_shift T v pos (snd pos) (size_m v - snd pos) args w = Normal u w7 \<and>
                     w' = upd_obj this (\<lambda>x. x\<lparr>size_m := size_m x + 1\<rparr>) w7))"
    by (rule cases)
  show o: "get_obj w' this = Some ?v'"
    using cases
  proof (elim disjE conjE exE, goal_cases)
    case (1 q)
    then show ?case using EmplaceBack_Normal(2)[OF 1(2) g] by simp
  next
    case (2 u w7)
    then show ?case using emplace_grow_obj(1)[OF 2(3) g] by (simp add: get_obj_upd_obj)
  next
    case (3 u w7)
    then show ?case using get_obj_cong[OF emplace_shift_objs[OF 3(3)], of this] g
      by (simp add: get_obj_upd_obj)
  qed
  show "\<exists>v'. get_obj w' this = Some v' \<and> p = ptr_add (Vector_begin v') (snd pos)"
    using t o pos(3) by (auto simp: w8 Vector_begin_def)
qed






lemma get_obj_w_full: "get_obj w_full 0 = Some v_full"
  by (simp add: w_full_def get_obj_def)


section \<open>Failures\<close>

lemma in_range_GetAddress_E:
  assumes "in_range (GetAddress m) n q"
  obtains j where "q = (buffer_m m, j)" and "j < n"
  using assms by (cases q) (auto simp: in_range_GetAddress)

text \<open>A relocation that fails found an element on which the selected constructor throws;
  the slots outside the destination block are untouched when the elements are copied.\<close>

lemma relocate_Raised:
  assumes "(if mv then uninitialized_move_n T first n d w else uninitialized_copy_n T first n d w) = Raised e w'"
    and "fst first \<noteq> fst d"
  shows "\<exists>q x. in_range first n q \<and> slot w q = Some (Some x) \<and> (if mv then move_throws T x else copy_throws T x)"
    and "\<not> mv \<Longrightarrow> fst q \<noteq> fst d \<Longrightarrow> slot w' q = slot w q"
    and "same_blocks w w'"
proof -
  show "\<exists>q x. in_range first n q \<and> slot w q = Some (Some x) \<and> (if mv then move_throws T x else copy_throws T x)"
    by (rule relocate_Raised_source[OF assms])
  show "slot w' q = slot w q" if "\<not> mv" "fst q \<noteq> fst d"
  proof -
    have "uninitialized_n (copy_construct_at T) first d 0 n w = Raised e w'"
      using assms(1) that(1) by (simp add: uninitialized_copy_n_def)
    from uninitialized_copy_Raised[OF this] have "\<forall>q. fst q \<noteq> fst d \<longrightarrow> slot w' q = slot w q"
      by blast
    then show ?thesis using that(2) by blast
  qed
  show "same_blocks w w'" by (rule relocate_blocks[OF disjI2, OF assms(1)])
qed

lemma outsideD: "outside args v \<Longrightarrow> fst q = buffer_m (data_m v) \<Longrightarrow> args \<noteq> MoveOf q"
  by (cases args) (auto simp: Vector_begin_def)

text \<open>A failed append leaves the slots of the vector as they were, when the relocation is
  not a throwing move and the new element is not moved out of the vector itself.\<close>

lemma append_new_Raised:
  assumes r: "append_new T this v args w = Raised e w'"
    and g: "get_obj w this = Some v" and inv: "vector_inv w v"
    and safe: "relocates_by_move T \<longrightarrow> (\<forall>x. Some x \<in> set (contents w this) \<longrightarrow> \<not> move_throws T x)"
    and ap: "outside args v"
  shows "fst p = buffer_m (data_m v) \<Longrightarrow> slot w' p = slot w p"
proof -
  assume pb: "fst p = buffer_m (data_m v)"
  have p: "fst p \<noteq> Some (length (heap w))" using pb vector_inv_fresh[OF inv] by simp
  let ?na = "length (heap w)"
  let ?nc = "if size_m v = 0 then 1 else size_m v * 2"
  let ?mv = "is_nothrow_move_constructible T \<or> \<not> is_copy_constructible T"
  let ?old = "GetAddress (data_m v)"
  have sz: "size_m v \<le> capacity_m (data_m v)" using inv by (simp add: vector_inv_def)
  have fr: "buffer_m (data_m v) \<noteq> Some ?na" by (rule vector_inv_fresh[OF inv])
  show ?thesis
  proof (cases "size_m v = Capacity v")
    case False
    then obtain q where "construct_at T q args w = Raised e w'"
      using r unfolding append_new_stay[OF False] by (auto split: option.splits)
    from construct_at_Raised[OF this] show ?thesis by simp
  next
    case True
    have nd: "nd = \<lparr>buffer_m = Some ?na, capacity_m = ?nc\<rparr>" if "RawMemory_ctor T ?nc w = Normal nd w1" for nd w1
      using RawMemory_ctor_Normal(1)[OF that] by simp
    have s1: "slot w1 p = slot w p" if "RawMemory_ctor T ?nc w = Normal nd w1" for nd w1
      using RawMemory_ctor_Normal(4)[OF that, of p] p by simp
    from append_new_grow_Raised[OF r True] show ?thesis
    proof (elim disjE exE conjE, goal_cases)
      case 1
      then show ?case using RawMemory_ctor_Raised(1) by blast
    next
      case (2 nd w1 wx)
      have "slot w' p = slot wx p"
        using RawMemory_dtor_Normal(3)[OF 2(3), of p] p nd[OF 2(1)] by simp
      also have "\<dots> = slot w1 p" using construct_at_Raised[OF 2(2)] by simp
      finally show ?case using s1[OF 2(1)] by simp
    next
      case (3 nd w1 u2 w2 wx)
      have dj: "fst ?old \<noteq> fst (GetAddress nd)" using fr nd[OF 3(1)] by simp
      note R = relocate_Raised[OF 3(3) dj]
      have s2: "slot w2 q = slot w1 q" if "fst q = buffer_m (data_m v)" for q
      proof (rule construct_at_Normal(5)[OF 3(2)])
        show "q \<noteq> ptr_add (GetAddress nd) (size_m v)" using that fr nd[OF 3(1)] by auto
        show "args \<noteq> MoveOf q" by (rule outsideD[OF ap that])
      qed
      have nmv: "\<not> ?mv"
      proof
        assume mv: ?mv
        from R(1) mv obtain q x where q: "in_range ?old (size_m v) q" "slot w2 q = Some (Some x)" "move_throws T x"
          by auto
        from q(1) obtain j where j: "q = (buffer_m (data_m v), j)" "j < size_m v"
          by (rule in_range_GetAddress_E)
        have "slot w q = Some (Some x)"
          using q(2) s2[of q] RawMemory_ctor_Normal(4)[OF 3(1), of q] fr by (simp add: j)
        then have "Some x \<in> set (contents w this)"
          using contents_member[OF g sz j(2)] by (simp add: j)
        then show False using safe mv q(3) by (simp add: relocates_by_move_def)
      qed
      have "slot w' p = slot wx p"
        using RawMemory_dtor_Normal(3)[OF 3(4), of p] p nd[OF 3(1)] by simp
      also have "\<dots> = slot w2 p" using R(2)[OF nmv, of p] p nd[OF 3(1)] by simp
      also have "\<dots> = slot w1 p" by (rule s2[OF pb])
      finally show ?case using s1[OF 3(1)] by simp
    qed
  qed
qed

text \<open>The vector after a failed operation that left the objects and the old slots alone.\<close>

lemma unchanged_vector:
  assumes g: "get_obj w this = Some v" and inv: "vector_inv w v"
    and o: "objs w' = objs w"
    and s: "\<And>p. fst p = buffer_m (data_m v) \<Longrightarrow> slot w' p = slot w p"
  shows "get_obj w' this = Some v \<and> contents w' this = contents w this"
proof -
  have g': "get_obj w' this = Some v" using g get_obj_cong[OF o] by simp
  have sz: "size_m v \<le> capacity_m (data_m v)" using inv by (simp add: vector_inv_def)
  have "contents w' this = contents w this"
    by (intro contents_eqI[OF g' g refl sz sz] s) simp
  then show ?thesis using g' by simp
qed

lemma Reserve_Raised:
  assumes r: "Reserve T this k w = Raised e w'"
    and g: "get_obj w this = Some v" and inv: "vector_inv w v"
    and safe: "relocates_by_move T \<longrightarrow> (\<forall>x. Some x \<in> set (contents w this) \<longrightarrow> \<not> move_throws T x)"
  shows "objs w' = objs w" and "fst p \<noteq> Some (length (heap w)) \<Longrightarrow> slot w' p = slot w p"
proof -
  let ?na = "length (heap w)"
  let ?mv = "is_nothrow_move_constructible T \<or> \<not> is_copy_constructible T"
  let ?old = "GetAddress (data_m v)"
  have sz: "size_m v \<le> capacity_m (data_m v)" using inv by (simp add: vector_inv_def)
  have fr: "buffer_m (data_m v) \<noteq> Some ?na" by (rule vector_inv_fresh[OF inv])
  have k: "capacity_m (data_m v) < k" using r g by (auto simp: Reserve_def split: if_splits)
  have "RawMemory_ctor T k w = Raised e w' \<or>
    (\<exists>nd w1 wx. RawMemory_ctor T k w = Normal nd w1 \<and>
       (if ?mv then uninitialized_move_n T ?old (size_m v) (GetAddress nd) w1
        else uninitialized_copy_n T ?old (size_m v) (GetAddress nd) w1) = Raised e wx \<and>
       RawMemory_dtor nd wx = Normal () w')"
    using r g k destroy_n_not_Raised RawMemory_dtor_not_Raised
    by (auto simp: Reserve_def bind_eq_Raised unwind_eq_Raised)
  then have "objs w' = objs w \<and> (fst p \<noteq> Some ?na \<longrightarrow> slot w' p = slot w p)"
  proof (elim disjE exE conjE, goal_cases)
    case 1
    then show ?case using RawMemory_ctor_Raised(1) by blast
  next
    case (2 nd w1 wx)
    have nd: "nd = \<lparr>buffer_m = Some ?na, capacity_m = k\<rparr>"
      using RawMemory_ctor_Normal(1)[OF 2(1)] k by simp
    have dj: "fst ?old \<noteq> fst (GetAddress nd)" using fr nd by simp
    note R = relocate_Raised[OF 2(2) dj]
    have nmv: "\<not> ?mv"
    proof
      assume mv: ?mv
      from R(1) mv obtain q x where q: "in_range ?old (size_m v) q" "slot w1 q = Some (Some x)" "move_throws T x"
        by auto
      from q(1) obtain j where j: "q = (buffer_m (data_m v), j)" "j < size_m v"
        by (rule in_range_GetAddress_E)
      have "slot w q = Some (Some x)"
        using q(2) RawMemory_ctor_Normal(4)[OF 2(1), of q] fr by (simp add: j)
      then have "Some x \<in> set (contents w this)"
        using contents_member[OF g sz j(2)] by (simp add: j)
      then show False using safe mv q(3) by (simp add: relocates_by_move_def)
    qed
    have "objs w' = objs w"
      using RawMemory_ctor_Normal(2)[OF 2(1)] RawMemory_dtor_Normal(1)[OF 2(3)] same_blocks_objs[OF R(3)]
      by simp
    moreover have "slot w' p = slot w p" if p: "fst p \<noteq> Some ?na"
    proof -
      have "slot w' p = slot wx p"
        using RawMemory_dtor_Normal(3)[OF 2(3), of p] p nd by simp
      also have "\<dots> = slot w1 p" using R(2)[OF nmv, of p] p nd by simp
      also have "\<dots> = slot w p" using RawMemory_ctor_Normal(4)[OF 2(1), of p] p by simp
      finally show ?thesis .
    qed
    ultimately show ?case by simp
  qed
  then show "objs w' = objs w" and "fst p \<noteq> Some (length (heap w)) \<Longrightarrow> slot w' p = slot w p"
    by simp_all
qed

lemma uninitialized_n_Raised_error:
  assumes "uninitialized_n ctor first d i r w = Raised e w'"
    and "\<And>p q w0 e0 w1. ctor p q w0 = Raised e0 w1 \<Longrightarrow> e0 = ElementOperationFailure"
  shows "e = ElementOperationFailure"
  using assms(1)
proof (induction r arbitrary: i w)
  case 0
  then show ?case by simp
next
  case (Suc r)
  show ?case
  proof (cases "ctor (ptr_add d i) (ptr_add first i) w")
    case (Normal u1 w1)
    then show ?thesis using Suc by simp
  next
    case (Raised e1 w1)
    then have "e1 = e" using Suc.prems by (auto split: outcome.splits)
    then show ?thesis using assms(2)[OF Raised] by simp
  next
    case Undefined
    then show ?thesis using Suc.prems by simp
  qed
qed

lemma relocate_Raised_error:
  assumes "(if mv then uninitialized_move_n T first n d w else uninitialized_copy_n T first n d w) = Raised e w'"
  shows "e = ElementOperationFailure"
proof (cases mv)
  case True
  then have "uninitialized_n (move_construct_at T) first d 0 n w = Raised e w'"
    using assms by (simp add: uninitialized_move_n_def)
  then show ?thesis
  proof (rule uninitialized_n_Raised_error)
    fix p q w0 e0 w1 assume "move_construct_at T p q w0 = Raised e0 w1"
    from move_construct_at_Raised[OF this] show "e0 = ElementOperationFailure" by simp
  qed
next
  case False
  then have "uninitialized_n (copy_construct_at T) first d 0 n w = Raised e w'"
    using assms by (simp add: uninitialized_copy_n_def)
  then show ?thesis
  proof (rule uninitialized_n_Raised_error)
    fix p q w0 e0 w1 assume "copy_construct_at T p q w0 = Raised e0 w1"
    from copy_construct_at_Raised[OF this] show "e0 = ElementOperationFailure" by simp
  qed
qed

lemma relocate_Normal_nothrow:
  assumes "(if mv then uninitialized_move_n T first n d w else uninitialized_copy_n T first n d w) = Normal u w'"
    and "fst first \<noteq> fst d" and "in_range first n q" and "slot w q = Some (Some x)"
  shows "\<not> (if mv then move_throws T x else copy_throws T x)"
proof -
  have dj: "fst first \<noteq> fst d \<or> snd first + n \<le> snd d" using assms(2) by simp
  show ?thesis
  proof (cases mv)
    case True
    then have m: "uninitialized_n (move_construct_at T) first d 0 n w = Normal u w'"
      using assms(1) by (simp add: uninitialized_move_n_def)
    from uninitialized_move_Normal[OF m dj]
    have "\<forall>q. in_range (ptr_add first 0) n q \<longrightarrow> (\<exists>x. slot w q = Some (Some x) \<and> \<not> move_throws T x)"
      by blast
    from this[rule_format, of q] show ?thesis using assms(3,4) True by auto
  next
    case False
    then have m: "uninitialized_n (copy_construct_at T) first d 0 n w = Normal u w'"
      using assms(1) by (simp add: uninitialized_copy_n_def)
    from uninitialized_copy_Normal[OF m dj]
    have "\<forall>q. in_range (ptr_add first 0) n q \<longrightarrow> (\<exists>x. slot w q = Some (Some x) \<and> \<not> copy_throws T x)"
      by blast
    from this[rule_format, of q] show ?thesis using assms(3,4) False by auto
  qed
qed

text \<open>A relocation out of live slots into valid slots of another block fails when the
  selected constructor throws on one of the elements.\<close>

lemma relocate_raises:
  assumes src: "\<And>q. in_range first n q \<Longrightarrow> \<exists>x. slot w q = Some (Some x)"
    and dst: "\<And>q. in_range d n q \<Longrightarrow> slot w q \<noteq> None"
    and dj: "fst first \<noteq> fst d"
    and th: "in_range first n q" "slot w q = Some (Some x)" "if mv then move_throws T x else copy_throws T x"
  shows "\<exists>w'. (if mv then uninitialized_move_n T first n d w else uninitialized_copy_n T first n d w) =
           Raised ElementOperationFailure w'"
proof -
  let ?m = "if mv then uninitialized_move_n T first n d w else uninitialized_copy_n T first n d w"
  have "?m \<noteq> Undefined" by (rule relocate_defined[OF src dst dj])
  moreover have "?m \<noteq> Normal u w'" for u w'
    using relocate_Normal_nothrow[OF _ dj th(1,2)] th(3) by blast
  ultimately obtain e w' where "?m = Raised e w'" by (cases ?m) auto
  then show ?thesis using relocate_Raised_error by blast
qed

lemma contents_memberD:
  assumes g: "get_obj w this = Some v" and sz: "size_m v \<le> capacity_m (data_m v)"
    and m: "Some x \<in> set (contents w this)"
  shows "\<exists>i < size_m v. slot w (buffer_m (data_m v), i) = Some (Some x)"
proof -
  from m g obtain i where i: "i < size_m v" "elem w this i = Some x"
    by (auto simp: contents_def)
  then have "slot w (buffer_m (data_m v), i) = Some (Some x)"
    using g sz by (auto simp: elem_eq split: option.splits)
  then show ?thesis using i(1) by blast
qed

lemma Reserve_raises:
  assumes g: "get_obj w this = Some v" and inv: "vector_inv w v"
    and k: "capacity_m (data_m v) < k" and mem: "allocatable T k w"
    and th: "Some x \<in> set (contents w this)" "relocation_throws T x"
  shows "\<exists>w'. Reserve T this k w = Raised ElementOperationFailure w'"
proof -
  let ?mv = "is_nothrow_move_constructible T \<or> \<not> is_copy_constructible T"
  let ?old = "GetAddress (data_m v)"
  let ?na = "length (heap w)"
  let ?nd = "\<lparr>buffer_m = Some ?na, capacity_m = k\<rparr>"
  have k0: "k \<noteq> 0" using k by simp
  from RawMemory_ctor_total[OF mem] k0 obtain w1 where a: "RawMemory_ctor T k w = Normal ?nd w1"
    by auto
  have s1: "slot w1 p = (if fst p = Some ?na then (if snd p < k then Some None else None) else slot w p)" for p
    using RawMemory_ctor_exact[OF a mem, of p] k0 by simp
  have fr: "buffer_m (data_m v) \<noteq> Some ?na" by (rule vector_inv_fresh[OF inv])
  have dj: "fst ?old \<noteq> fst (GetAddress ?nd)" using fr by simp
  have sz: "size_m v \<le> capacity_m (data_m v)" using inv by (simp add: vector_inv_def)
  have src: "\<exists>x. slot w1 q = Some (Some x)" if ir: "in_range ?old (size_m v) q" for q
  proof -
    from ir obtain j where q: "q = (buffer_m (data_m v), j)" "j < size_m v"
      by (rule in_range_GetAddress_E)
    from vector_inv_live[OF inv q(2)] show ?thesis using fr
      by (auto simp: s1 q ptr_add_def GetAddress_def)
  qed
  have dst: "slot w1 q \<noteq> None" if "in_range (GetAddress ?nd) (size_m v) q" for q
    using that sz k by (cases q) (auto simp: in_range_GetAddress s1)
  from contents_memberD[OF g sz th(1)] obtain i where
    i: "i < size_m v" "slot w (buffer_m (data_m v), i) = Some (Some x)" by blast
  have t1: "in_range ?old (size_m v) (buffer_m (data_m v), i)" using i(1) by (simp add: in_range_GetAddress)
  have t2: "slot w1 (buffer_m (data_m v), i) = Some (Some x)" using i(2) fr by (simp add: s1)
  have t3: "if ?mv then move_throws T x else copy_throws T x"
    using th(2) by (simp add: relocation_throws_def relocates_by_move_def)
  from relocate_raises[of ?old "size_m v" w1 "GetAddress ?nd" _ x ?mv T, OF src dst dj t1 t2 t3]
  obtain wx where rel: "(if ?mv then uninitialized_move_n T ?old (size_m v) (GetAddress ?nd) w1
              else uninitialized_copy_n T ?old (size_m v) (GetAddress ?nd) w1) = Raised ElementOperationFailure wx"
    by blast
  have "get_block w1 ?na \<noteq> None" using Allocate_Normal(4)[of T k w "Some ?na" w1 ?na] a k0
    by (auto simp: RawMemory_ctor_def bind_eq_Normal)
  then obtain blk where "get_block w1 ?na = Some blk" by auto
  from same_blocks_D[OF relocate_blocks[OF disjI2, OF rel] this]
  obtain w' where "RawMemory_dtor ?nd wx = Normal () w'"
    by (auto simp: RawMemory_dtor_def Deallocate_def)
  then show ?thesis using g k a rel by (simp add: Reserve_def unwind_def)
qed

lemma construct_at_throws:
  assumes "slot w p \<noteq> None" and "ctor_throws T args w"
  shows "construct_at T p args w = Raised ElementOperationFailure (log (ctor_event args) w)"
  using assms
  by (cases args) (auto simp: place_def move_construct_at_def split: option.splits)

lemma construct_at_total:
  assumes "slot w p \<noteq> None" and "constructed T args w = Some y"
  shows "\<exists>w'. construct_at T p args w = Normal () w'"
  using assms
  by (cases args) (auto simp: place_def move_construct_at_def split: option.splits if_splits)

text \<open>A \<^verbatim>\<open>T&&\<close> argument refers to no object of a block that is yet to be allocated.\<close>

lemma args_after_ctor:
  assumes a: "RawMemory_ctor T n w = Normal nd w1"
  shows "ctor_throws T args w \<Longrightarrow> ctor_throws T args w1"
    and "constructed T args w = Some y \<Longrightarrow> constructed T args w1 = Some y"
proof -
  have s: "slot w1 s = slot w s" if "slot w s \<noteq> None" for s
  proof -
    have "fst s \<noteq> Some (length (heap w))"
      using that slot_fresh[of w "length (heap w)" "snd s"] by (cases s) auto
    then show ?thesis using RawMemory_ctor_Normal(4)[OF a, of s] by simp
  qed
  show "ctor_throws T args w1" if "ctor_throws T args w"
  proof (cases args)
    case (MoveOf s)
    then have "slot w s \<noteq> None" using that by (auto split: option.splits)
    from s[OF this] show ?thesis using that MoveOf by simp
  qed (use that in auto)
  show "constructed T args w1 = Some y" if "constructed T args w = Some y"
  proof (cases args)
    case (MoveOf s)
    then have "slot w s \<noteq> None" using that by (auto split: option.splits)
    from s[OF this] show ?thesis using that MoveOf by simp
  qed (use that in auto)
qed

lemma slot_None_same_blocks:
  assumes "same_blocks w w'"
  shows "slot w' q = None \<longleftrightarrow> slot w q = None"
proof (cases "fst q")
  case None
  then show ?thesis by (simp add: slot_def)
next
  case (Some a)
  have "map_option length (get_block w' a) = map_option length (get_block w a)"
    using assms by (simp add: same_blocks_def)
  then show ?thesis using Some
    by (cases "get_block w a"; cases "get_block w' a") (auto simp: slot_def)
qed

text \<open>A growing append fails with the element failure when a block of the new capacity can
  be allocated and the constructor of the new element throws, or an element makes the
  relocating constructor throw (the new element not being moved out of the vector).\<close>

lemma append_new_raises:
  assumes g: "get_obj w this = Some v" and inv: "vector_inv w v"
    and full: "size_m v = Capacity v"
    and mem: "allocatable T (if size_m v = 0 then 1 else size_m v * 2) w"
    and th: "ctor_throws T args w \<or>
             (constructed T args w \<noteq> None \<and> outside args v \<and>
              (\<exists>x. Some x \<in> set (contents w this) \<and> relocation_throws T x))"
  shows "\<exists>w'. append_new T this v args w = Raised ElementOperationFailure w'"
proof -
  let ?mv = "is_nothrow_move_constructible T \<or> \<not> is_copy_constructible T"
  let ?old = "GetAddress (data_m v)"
  let ?na = "length (heap w)"
  let ?nc = "if size_m v = 0 then 1 else size_m v * 2"
  let ?nd = "\<lparr>buffer_m = Some ?na, capacity_m = ?nc\<rparr>"
  let ?p = "ptr_add (GetAddress ?nd) (size_m v)"
  let ?ev = "ctor_event args"
  have k0: "?nc \<noteq> 0" by simp
  from RawMemory_ctor_total[OF mem] obtain w1 where a: "RawMemory_ctor T ?nc w = Normal ?nd w1"
    by auto
  have s1: "slot w1 p = (if fst p = Some ?na then (if snd p < ?nc then Some None else None) else slot w p)" for p
    using RawMemory_ctor_exact[OF a mem, of p] by simp
  have fr: "buffer_m (data_m v) \<noteq> Some ?na" by (rule vector_inv_fresh[OF inv])
  have dj: "fst ?old \<noteq> fst (GetAddress ?nd)" using fr by simp
  have sz: "size_m v \<le> capacity_m (data_m v)" using inv by (simp add: vector_inv_def)
  have vp: "slot w1 ?p = Some None" by (simp add: s1)
  have "get_block w1 ?na \<noteq> None" using Allocate_Normal(4)[of T ?nc w "Some ?na" w1 ?na] a
    by (auto simp: RawMemory_ctor_def bind_eq_Normal)
  then obtain blk where blk: "get_block w1 ?na = Some blk" by auto
  have dt: "\<exists>w'. RawMemory_dtor ?nd wx = Normal () w'" if "same_blocks w1 wx" for wx
    using same_blocks_D[OF that blk] by (auto simp: RawMemory_dtor_def Deallocate_def)
  have "\<exists>wx. bind (construct_at T ?p args w1) (\<lambda>_ w2.
                if ?mv then uninitialized_move_n T ?old (size_m v) (GetAddress ?nd) w2
                else uninitialized_copy_n T ?old (size_m v) (GetAddress ?nd) w2)
           = Raised ElementOperationFailure wx \<and> same_blocks w1 wx"
  proof (cases "ctor_throws T args w")
    case True
    have "construct_at T ?p args w1 = Raised ElementOperationFailure (log ?ev w1)"
      by (rule construct_at_throws[OF _ args_after_ctor(1)[OF a True]]) (simp add: vp)
    then show ?thesis by (intro exI[of _ "log ?ev w1"]) simp
  next
    case False
    with th obtain y x where y: "constructed T args w = Some y" and ap: "outside args v"
      and x: "Some x \<in> set (contents w this)" "relocation_throws T x" by auto
    have "slot w1 ?p \<noteq> None" by (simp add: vp)
    from construct_at_total[OF this args_after_ctor(2)[OF a y]] obtain w2 where
      c: "construct_at T ?p args w1 = Normal () w2" by blast
    have sb2: "same_blocks w1 w2" by (rule construct_at_blocks[OF disjI1, OF c])
    have s2: "slot w2 q = slot w1 q" if "fst q = buffer_m (data_m v)" for q
    proof (rule construct_at_Normal(5)[OF c])
      show "q \<noteq> ?p" using that fr by auto
      show "args \<noteq> MoveOf q" by (rule outsideD[OF ap that])
    qed
    have src: "\<exists>x. slot w2 q = Some (Some x)" if ir: "in_range ?old (size_m v) q" for q
    proof -
      from ir obtain j where q: "q = (buffer_m (data_m v), j)" "j < size_m v"
        by (rule in_range_GetAddress_E)
      have "slot w2 q = slot w1 q" by (rule s2) (simp add: q)
      also have "\<dots> = slot w q" using fr by (simp add: s1 q)
      finally show ?thesis using vector_inv_live[OF inv q(2)] by (simp add: q ptr_add_def GetAddress_def)
    qed
    have dst: "slot w2 q \<noteq> None" if "in_range (GetAddress ?nd) (size_m v) q" for q
    proof -
      from that obtain j where q: "q = (Some ?na, j)" "j < size_m v"
        using in_range_GetAddress_E[of ?nd "size_m v" q] by auto
      have "slot w1 q \<noteq> None" using q by (simp add: s1)
      then show ?thesis using slot_None_same_blocks[OF sb2, of q] by simp
    qed
    from contents_memberD[OF g sz x(1)] obtain i where
      i: "i < size_m v" "slot w (buffer_m (data_m v), i) = Some (Some x)" by blast
    have t1: "in_range ?old (size_m v) (buffer_m (data_m v), i)" using i(1) by (simp add: in_range_GetAddress)
    have "slot w2 (buffer_m (data_m v), i) = slot w1 (buffer_m (data_m v), i)"
      by (rule s2) simp
    then have t2: "slot w2 (buffer_m (data_m v), i) = Some (Some x)" using i(2) fr by (simp add: s1)
    have t3: "if ?mv then move_throws T x else copy_throws T x"
      using x(2) by (simp add: relocation_throws_def relocates_by_move_def)
    from relocate_raises[of ?old "size_m v" w2 "GetAddress ?nd" _ x ?mv T, OF src dst dj t1 t2 t3]
    obtain wx where rel: "(if ?mv then uninitialized_move_n T ?old (size_m v) (GetAddress ?nd) w2
              else uninitialized_copy_n T ?old (size_m v) (GetAddress ?nd) w2) = Raised ElementOperationFailure wx"
      by blast
    have "same_blocks w1 wx"
      by (rule same_blocks_trans[OF sb2 relocate_blocks[OF disjI2, OF rel]])
    then show ?thesis using c rel by (intro exI[of _ wx]) simp
  qed
  then obtain wx where i: "bind (construct_at T ?p args w1) (\<lambda>_ w2.
                if ?mv then uninitialized_move_n T ?old (size_m v) (GetAddress ?nd) w2
                else uninitialized_copy_n T ?old (size_m v) (GetAddress ?nd) w2)
           = Raised ElementOperationFailure wx" and sb: "same_blocks w1 wx" by blast
  from dt[OF sb] obtain w' where d: "RawMemory_dtor ?nd wx = Normal () w'" by blast
  have "append_new T this v args w = Raised ElementOperationFailure w'"
    unfolding append_new_grow[OF full] by (simp add: a i d unwind_def)
  then show ?thesis by blast
qed


section \<open>The strong guarantee\<close>

lemma append_ops_Raised:
  assumes g: "get_obj w this = Some v"
  shows "PushBack_copy T this x w = Raised e w' \<longleftrightarrow> append_new T this v (CopyOf x) w = Raised e w'"
    and "PushBack_move T this src w = Raised e w' \<longleftrightarrow> append_new T this v (MoveOf src) w = Raised e w'"
    and "EmplaceBack T this args w = Raised e w' \<longleftrightarrow> append_new T this v args w = Raised e w'"
proof -
  show "PushBack_copy T this x w = Raised e w' \<longleftrightarrow> append_new T this v (CopyOf x) w = Raised e w'"
    unfolding PushBack_copy_append_new using g by (simp add: bind_eq_Raised)
  show "PushBack_move T this src w = Raised e w' \<longleftrightarrow> append_new T this v (MoveOf src) w = Raised e w'"
    unfolding PushBack_move_append_new using g by (simp add: bind_eq_Raised)
  have k: "(case get_obj W this of
            None \<Rightarrow> Undefined
          | Some v' \<Rightarrow> (case RawMemory_index (data_m v') (size_m v' - 1) of
                None \<Rightarrow> Undefined
              | Some p \<Rightarrow> Normal p W)) \<noteq> Raised e w'" for W :: "'a world"
    by (simp split: option.splits)
  show "EmplaceBack T this args w = Raised e w' \<longleftrightarrow> append_new T this v args w = Raised e w'"
  proof -
    have "EmplaceBack T this args w = bind (append_new T this v args w) (\<lambda>_ w5.
         (case get_obj (upd_obj this (\<lambda>x. x\<lparr>size_m := size_m x + 1\<rparr>) w5) this of
            None \<Rightarrow> Undefined
          | Some v' \<Rightarrow> (case RawMemory_index (data_m v') (size_m v' - 1) of
                None \<Rightarrow> Undefined
              | Some p \<Rightarrow> Normal p (upd_obj this (\<lambda>x. x\<lparr>size_m := size_m x + 1\<rparr>) w5))))"
      unfolding EmplaceBack_append_new by (simp only: g option.case)
    then show ?thesis by (simp only: bind_eq_Raised k simp_thms ex_simps)
  qed
qed

lemma append_new_unchanged:
  assumes r: "append_new T this v args w = Raised e w'"
    and g: "get_obj w this = Some v" and inv: "vector_inv w v"
    and safe: "relocates_by_move T \<longrightarrow> (\<forall>x. Some x \<in> set (contents w this) \<longrightarrow> \<not> move_throws T x)"
    and ap: "outside args v"
  shows "get_obj w' this = Some v \<and> contents w' this = contents w this"
  by (rule unchanged_vector[OF g inv append_new_Raised_obj[OF r]])
     (rule append_new_Raised[OF r g inv safe ap])

lemma Reserve_unchanged:
  assumes r: "Reserve T this k w = Raised e w'"
    and g: "get_obj w this = Some v" and inv: "vector_inv w v"
    and safe: "relocates_by_move T \<longrightarrow> (\<forall>x. Some x \<in> set (contents w this) \<longrightarrow> \<not> move_throws T x)"
  shows "get_obj w' this = Some v \<and> contents w' this = contents w this"
proof (rule unchanged_vector[OF g inv Reserve_Raised(1)[OF r g inv safe]])
  fix p :: ptr assume "fst p = buffer_m (data_m v)"
  then have "fst p \<noteq> Some (length (heap w))" using vector_inv_fresh[OF inv] by simp
  then show "slot w' p = slot w p" by (rule Reserve_Raised(2)[OF r g inv safe])
qed

lemma vector_inv_w_full: "vector_inv w_full v_full"
  by (simp add: vector_inv_def w_full_def v_full_def get_block_def)

lemma contents_w_full: "contents w_full 0 = [Some 5, Some 13]"
  by code_simp

lemma w_full_obj_facts:
  "get_obj w_full_obj 0 = Some v_full" "vector_inv w_full_obj v_full"
  "contents w_full_obj 0 = [Some 5, Some 13]" "slot w_full_obj (Some 1, 0) = Some (Some 9)"
  by code_simp+

text \<open>
  C1.  Let the vector satisfy its invariant and let the relocation of its elements not be
  one by a move constructor that throws on a stored element (the relocation goes by copy
  construction, or no stored element makes the move constructor throw).  Then whenever
  \<^verbatim>\<open>Reserve\<close>, \<^verbatim>\<open>PushBack\<close> (either overload) or \<^verbatim>\<open>EmplaceBack\<close> raises, with an argument
  that is not a \<^verbatim>\<open>T&&\<close> to an element of the vector itself, the vector object (buffer,
  capacity, size) and its contents are as before the call.  The failure reaches the caller:
  when the new block can be allocated, \<^verbatim>\<open>Reserve\<close> above the capacity raises the element
  failure if the relocation of a stored element throws, and an append to a full vector
  raises it if the constructor of the new element throws, or if the new element is
  constructed and the relocation of a stored element throws.
\<close>

theorem strong_guarantee:
  assumes g: "get_obj w this = Some v" and inv: "vector_inv w v"
    and safe: "relocates_by_move T \<longrightarrow> (\<forall>x. Some x \<in> set (contents w this) \<longrightarrow> \<not> move_throws T x)"
  shows "(\<forall>e w'. (\<exists>k. Reserve T this k w = Raised e w') \<or>
                 (\<exists>x. PushBack_copy T this x w = Raised e w') \<or>
                 (\<exists>src. fst src \<noteq> fst (Vector_begin v) \<and> PushBack_move T this src w = Raised e w') \<or>
                 (\<exists>args. outside args v \<and> EmplaceBack T this args w = Raised e w') \<longrightarrow>
            get_obj w' this = Some v \<and> contents w' this = contents w this) \<and>
         (\<forall>k. Capacity v < k \<and> allocatable T k w \<and>
               (\<exists>x. Some x \<in> set (contents w this) \<and> relocation_throws T x) \<longrightarrow>
            (\<exists>w'. Reserve T this k w = Raised ElementOperationFailure w')) \<and>
         (\<forall>args. Size v = Capacity v \<and> allocatable T (max 1 (2 * Capacity v)) w \<and>
               (ctor_throws T args w \<or>
                (constructed T args w \<noteq> None \<and> outside args v \<and>
                 (\<exists>x. Some x \<in> set (contents w this) \<and> relocation_throws T x))) \<longrightarrow>
            (\<exists>w'. EmplaceBack T this args w = Raised ElementOperationFailure w') \<and>
            (\<forall>x. args = CopyOf x \<longrightarrow> (\<exists>w'. PushBack_copy T this x w = Raised ElementOperationFailure w')) \<and>
            (\<forall>src. args = MoveOf src \<longrightarrow> (\<exists>w'. PushBack_move T this src w = Raised ElementOperationFailure w')))"
proof (intro conjI allI impI)
  fix e w'
  assume "(\<exists>k. Reserve T this k w = Raised e w') \<or>
          (\<exists>x. PushBack_copy T this x w = Raised e w') \<or>
          (\<exists>src. fst src \<noteq> fst (Vector_begin v) \<and> PushBack_move T this src w = Raised e w') \<or>
          (\<exists>args. outside args v \<and> EmplaceBack T this args w = Raised e w')"
  then consider k where "Reserve T this k w = Raised e w'"
    | args where "outside args v" "append_new T this v args w = Raised e w'"
    unfolding append_ops_Raised[OF g]
  proof (elim disjE exE conjE, goal_cases)
    case (1 k)
    from 1(3) show ?case by (rule 1(1))
  next
    case (2 x)
    have "outside (CopyOf x) v" by simp
    from this 2(3) show ?case by (rule 2(2))
  next
    case (3 src)
    from 3(3) have "outside (MoveOf src) v" by simp
    from this 3(4) show ?case by (rule 3(2))
  next
    case (4 args)
    from 4(3) 4(4) show ?case by (rule 4(2))
  qed
  then have "get_obj w' this = Some v \<and> contents w' this = contents w this"
  proof cases
    case 1
    then show ?thesis by (rule Reserve_unchanged[OF _ g inv safe])
  next
    case 2
    from 2(2) g inv safe 2(1) show ?thesis by (rule append_new_unchanged)
  qed
  then show "get_obj w' this = Some v" "contents w' this = contents w this" by simp_all
next
  fix k
  assume "Capacity v < k \<and> allocatable T k w \<and>
               (\<exists>x. Some x \<in> set (contents w this) \<and> relocation_throws T x)"
  then show "\<exists>w'. Reserve T this k w = Raised ElementOperationFailure w'"
    using Reserve_raises[OF g inv, of k] by (auto simp: Capacity_def)
next
  fix args
  assume a: "Size v = Capacity v \<and> allocatable T (max 1 (2 * Capacity v)) w \<and>
               (ctor_throws T args w \<or>
                (constructed T args w \<noteq> None \<and> outside args v \<and>
                 (\<exists>x. Some x \<in> set (contents w this) \<and> relocation_throws T x)))"
  then have full: "size_m v = Capacity v" by (simp add: Size_def)
  have "(if size_m v = 0 then 1 else size_m v * 2) = max 1 (2 * Capacity v)"
    using full by simp
  then have mem: "allocatable T (if size_m v = 0 then 1 else size_m v * 2) w" using a by simp
  from a have th: "ctor_throws T args w \<or>
                (constructed T args w \<noteq> None \<and> outside args v \<and>
                 (\<exists>x. Some x \<in> set (contents w this) \<and> relocation_throws T x))" by blast
  from append_new_raises[OF g inv full mem th]
  obtain w' where r: "append_new T this v args w = Raised ElementOperationFailure w'" by blast
  show "\<exists>w'. EmplaceBack T this args w = Raised ElementOperationFailure w'"
    using r unfolding append_ops_Raised[OF g] by blast
  show "\<exists>w'. PushBack_copy T this x w = Raised ElementOperationFailure w'" if "args = CopyOf x" for x
    using r that unfolding append_ops_Raised[OF g] by blast
  show "\<exists>w'. PushBack_move T this src w = Raised ElementOperationFailure w'" if "args = MoveOf src" for src
    using r that unfolding append_ops_Raised[OF g] by blast
qed

theorem strong_guarantee_witness:
  "get_obj w_full_obj 0 = Some v_full \<and> vector_inv w_full_obj v_full \<and> \<not> relocates_by_move T_copy \<and>
   fst (Some 1 :: addr option, 0 :: nat) \<noteq> fst (Vector_begin v_full) \<and>
   (\<exists>w'. Reserve T_copy 0 4 w_full_obj = Raised ElementOperationFailure w' \<and>
      get_obj w' 0 = Some v_full \<and> contents w' 0 = [Some 5, Some 13]) \<and>
   (\<exists>w'. PushBack_copy T_copy 0 4 w_full_obj = Raised ElementOperationFailure w' \<and>
      get_obj w' 0 = Some v_full \<and> contents w' 0 = [Some 5, Some 13]) \<and>
   (\<exists>w'. PushBack_move T_copy 0 (Some 1, 0) w_full_obj = Raised ElementOperationFailure w' \<and>
      get_obj w' 0 = Some v_full \<and> contents w' 0 = [Some 5, Some 13]) \<and>
   (\<exists>w'. EmplaceBack T_copy 0 (Args None) w_full_obj = Raised ElementOperationFailure w' \<and>
      get_obj w' 0 = Some v_full \<and> contents w' 0 = [Some 5, Some 13])"
proof -
  note F = w_full_obj_facts
  have nm: "\<not> relocates_by_move T_copy" by (simp add: relocates_by_move_def T_copy_def)
  then have safe: "relocates_by_move T_copy \<longrightarrow>
      (\<forall>x. Some x \<in> set (contents w_full_obj 0) \<longrightarrow> \<not> move_throws T_copy x)" by simp
  note S = strong_guarantee[OF F(1) F(2) safe]
  have c: "Capacity v_full = 2" "Size v_full = 2" by (simp_all add: Capacity_def Size_def v_full_def)
  have al: "allocatable T_copy 4 w_full_obj"
    by (simp add: allocatable_def T_copy_def w_full_obj_def)
  have os': "fst (Some 1 :: addr option, 0 :: nat) \<noteq> fst (Vector_begin v_full)"
    by (simp add: Vector_begin_def v_full_def)
  then have os: "outside (MoveOf (Some 1, 0)) v_full" by simp
  have t: "\<exists>x. Some x \<in> set (contents w_full_obj 0) \<and> relocation_throws T_copy x"
    by (simp add: F(3) relocation_throws_def nm) (simp add: T_copy_def)
  have n: "ctor_throws T_copy (Args None) w_full_obj" by simp
  have m: "constructed T_copy (MoveOf (Some 1, 0)) w_full_obj \<noteq> None"
    by code_simp
  have k: "constructed T_copy (CopyOf 4) w_full_obj \<noteq> None" by (simp add: T_copy_def)
  from S[THEN conjunct2, THEN conjunct1, rule_format, of 4] t al
  obtain w1 where r1: "Reserve T_copy 0 4 w_full_obj = Raised ElementOperationFailure w1"
    by (auto simp: c)
  from S[THEN conjunct2, THEN conjunct2, rule_format, of "CopyOf 4"] t al k
  obtain w2 where r2: "PushBack_copy T_copy 0 4 w_full_obj = Raised ElementOperationFailure w2"
    by (auto simp: c)
  from S[THEN conjunct2, THEN conjunct2, rule_format, of "MoveOf (Some 1, 0)"] t al m os
  obtain w3 where r3: "PushBack_move T_copy 0 (Some 1, 0) w_full_obj = Raised ElementOperationFailure w3"
    by (auto simp: c)
  from S[THEN conjunct2, THEN conjunct2, rule_format, of "Args None"] n al
  obtain w4 where r4: "EmplaceBack T_copy 0 (Args None) w_full_obj = Raised ElementOperationFailure w4"
    by (auto simp: c)
  note U = S[THEN conjunct1, rule_format, unfolded F(3)]
  have u1: "get_obj w1 0 = Some v_full \<and> contents w1 0 = [Some 5, Some 13]"
    by (rule U[OF disjI1, OF exI, OF r1])
  have u2: "get_obj w2 0 = Some v_full \<and> contents w2 0 = [Some 5, Some 13]"
    by (rule U[OF disjI2, OF disjI1, OF exI, OF r2])
  have u3: "get_obj w3 0 = Some v_full \<and> contents w3 0 = [Some 5, Some 13]"
    by (rule U[OF disjI2, OF disjI2, OF disjI1, OF exI, OF conjI, OF os' r3])
  have oa: "outside (Args None) v_full" by simp
  have u4: "get_obj w4 0 = Some v_full \<and> contents w4 0 = [Some 5, Some 13]"
    by (rule U[OF disjI2, OF disjI2, OF disjI2, OF exI, OF conjI, OF oa r4])
  show ?thesis using r1 r2 r3 r4 u1 u2 u3 u4 nm os' F(1,2) by blast
qed

text \<open>With an element type that has no copy constructor the relocation moves the elements.
  \<^verbatim>\<open>Reserve(4)\<close> on the vector \<open>5, 13\<close> moves \<open>5\<close> into the new block, fails on \<open>13\<close>,
  and leaves the moved-from first element behind: the contents are no longer the original
  ones, although the vector object itself is as before.\<close>

theorem strong_guarantee_move_only_fails:
  "get_obj w_full 0 = Some v_full \<and> vector_inv w_full v_full \<and>
   (\<exists>w'. Reserve T_move_only 0 4 w_full = Raised ElementOperationFailure w' \<and>
      contents w_full 0 = [Some 5, Some 13] \<and> contents w' 0 = [Some 0, Some 13])"
proof -
  have "Reserve T_move_only 0 4 w_full = Raised ElementOperationFailure
      \<lparr>heap = [Some [Some 0, Some 13], None], free_slots = 10, objs = [Some v_full],
       trace = [MoveCtor, MoveCtor, Dtor]\<rparr>"
    by code_simp
  moreover have "contents \<lparr>heap = [Some [Some 0, Some 13], None], free_slots = 10, objs = [Some v_full],
       trace = [MoveCtor, MoveCtor, Dtor]\<rparr> 0 = [Some (0::nat), Some 13]"
    by code_simp
  ultimately show ?thesis using get_obj_w_full vector_inv_w_full contents_w_full by simp
qed

text \<open>\<^verbatim>\<open>v.PushBack(std::move(v[0]))\<close> on the full vector \<open>5, 13\<close> of a type that is relocated
  by copy: the new element is move-constructed from the first element, then the copy of
  \<open>13\<close> throws, and the first element stays moved-from.\<close>

lemma PushBack_move_own_element:
  "\<not> relocates_by_move T_copy \<and> get_obj w_full 0 = Some v_full \<and> vector_inv w_full v_full \<and>
   Vector_index v_full 0 = Some (Some 0, 0) \<and>
   (\<exists>w'. PushBack_move T_copy 0 (Some 0, 0) w_full = Raised ElementOperationFailure w' \<and>
      contents w_full 0 = [Some 5, Some 13] \<and> contents w' 0 = [Some 0, Some 13])"
proof -
  let ?w' = "\<lparr>heap = [Some [Some 0, Some 13], None], free_slots = 10, objs = [Some v_full],
       trace = [MoveCtor, CopyCtor, CopyCtor, Dtor]\<rparr> :: nat world"
  have "PushBack_move T_copy 0 (Some 0, 0) w_full = Raised ElementOperationFailure ?w'"
    by code_simp
  moreover have "contents ?w' 0 = [Some 0, Some 13]" "Vector_index v_full 0 = Some (Some 0, 0)"
    "\<not> relocates_by_move T_copy"
    by code_simp+
  ultimately show ?thesis using get_obj_w_full vector_inv_w_full contents_w_full by simp
qed

section \<open>Move assignment\<close>

text \<open>
  C2.  The invariant of a vector: the size is at most the capacity, the slots below the size
  hold live elements and the slots from the size on are raw memory.  Move assignment to a
  non-empty vector does not keep it for the source.  Assigning the vector \<open>1\<close> (object
  \<open>1\<close>) to the vector \<open>7, 8\<close> (object \<open>0\<close>), both satisfying the invariant, sets the
  size of the target to \<open>0\<close> without destroying its elements and swaps: the source then
  has size \<open>0\<close> and the block of the target, whose first two slots still hold the live
  \<open>7\<close> and \<open>8\<close>.  No destructor has run, and none runs when the source is destroyed
  afterwards and its block is freed.
\<close>

theorem assign_move_keeps_live_elements:
  "get_obj w_two 0 = Some v_one \<and> vector_inv w_two v_one \<and>
   get_obj w_two 1 = Some v_small \<and> vector_inv w_two v_small \<and>
   (\<exists>w' r. assign_move 0 1 w_two = Normal () w' \<and>
      get_obj w' 0 = Some v_small \<and> vector_inv w' v_small \<and>
      get_obj w' 1 = Some r \<and> Size r = 0 \<and> Capacity r = 3 \<and> buffer_m (data_m r) = Some 0 \<and>
      slot w' (Some 0, 0) = Some (Some 7) \<and> slot w' (Some 0, 1) = Some (Some 8) \<and>
      \<not> vector_inv w' r \<and> trace w' = [] \<and>
      (\<exists>w''. Vector_dtor 1 w' = Normal () w'' \<and> get_block w'' 0 = None \<and> trace w'' = []))"
proof -
  let ?r = "\<lparr>data_m = \<lparr>buffer_m = Some 0, capacity_m = 3\<rparr>, size_m = 0\<rparr>"
  let ?w' = "\<lparr>heap = [Some [Some 7, Some 8, None], Some [Some 1]], free_slots = 10,
     objs = [Some v_small, Some ?r], trace = []\<rparr> :: nat world"
  let ?w'' = "\<lparr>heap = [None, Some [Some 1]], free_slots = 13,
     objs = [Some v_small, None], trace = []\<rparr> :: nat world"
  have a: "assign_move 0 1 w_two = Normal () ?w'" by code_simp
  have b: "Vector_dtor 1 ?w' = Normal () ?w''" by code_simp
  have c: "get_obj w_two 0 = Some v_one" "vector_inv w_two v_one"
    "get_obj w_two 1 = Some v_small" "vector_inv w_two v_small"
    by code_simp+
  have d: "get_obj ?w' 0 = Some v_small" "vector_inv ?w' v_small" "get_obj ?w' 1 = Some ?r"
    "Size ?r = 0" "Capacity ?r = 3"
    "slot ?w' (Some 0, 0) = Some (Some 7)" "slot ?w' (Some 0, 1) = Some (Some 8)"
    "\<not> vector_inv ?w' ?r" "get_block ?w'' 0 = None"
    by code_simp+
  show ?thesis
    unfolding a using b c d by simp
qed

section \<open>Insertion without growth\<close>

text \<open>The relocation of one element, possibly inside one block.\<close>

lemma relocate_one_Normal:
  assumes "(if ma then uninitialized_move_n T s 1 d w else uninitialized_copy_n T s 1 d w) = Normal u w'"
  shows "trace w' = trace w @ [if ma then MoveCtor else CopyCtor]"
    and "z \<noteq> d \<Longrightarrow> z \<noteq> s \<Longrightarrow> slot w' z = slot w z"
    and "d \<noteq> s \<Longrightarrow> slot w' d = slot w s"
    and "\<exists>x. slot w s = Some (Some x)"
proof -
  have "trace w' = trace w @ [if ma then MoveCtor else CopyCtor] \<and>
        (z \<noteq> d \<longrightarrow> z \<noteq> s \<longrightarrow> slot w' z = slot w z) \<and>
        (d \<noteq> s \<longrightarrow> slot w' d = slot w s) \<and> (\<exists>x. slot w s = Some (Some x))"
  proof (cases ma)
    case True
    then have "move_construct_at T d s w = Normal u w'"
      using assms by (simp add: uninitialized_move_n_def split: outcome.splits)
    from move_construct_at_Normal[OF this] show ?thesis
      using True by (auto simp: slot_set_slot)
  next
    case False
    then have "copy_construct_at T d s w = Normal u w'"
      using assms by (simp add: uninitialized_copy_n_def split: outcome.splits)
    from copy_construct_at_Normal[OF this] show ?thesis
      using False by (auto simp: slot_set_slot)
  qed
  then show "trace w' = trace w @ [if ma then MoveCtor else CopyCtor]"
    and "z \<noteq> d \<Longrightarrow> z \<noteq> s \<Longrightarrow> slot w' z = slot w z"
    and "d \<noteq> s \<Longrightarrow> slot w' d = slot w s"
    and "\<exists>x. slot w s = Some (Some x)" by simp_all
qed

text \<open>
  \<^verbatim>\<open>std::move_backward(first, last, d_last)\<close> and \<^verbatim>\<open>std::copy_backward\<close> for a
  destination one slot to the right of the source, in the same block \<open>b\<close>: the \<open>k\<close> slots
  behind \<open>d\<close> get what their left neighbours held; apart from slot \<open>d\<close>, which a move
  leaves moved-from, nothing else changes.
\<close>

lemma shift_backward:
  assumes "assign_backward (\<lambda>p q. if ma then move_assign_at T p q else copy_assign_at T p q)
             (b, d) k (b, d + k + 1) w = Normal u w'"
    and "z \<noteq> (b, d)"
  shows "slot w' z = (if fst z = b \<and> d < snd z \<and> snd z \<le> d + k then slot w (b, snd z - 1) else slot w z)"
  using assms
proof (induction k arbitrary: w)
  case 0
  then show ?case by auto
next
  case (Suc k)
  let ?asg = "\<lambda>p q. if ma then move_assign_at T p q else copy_assign_at T p q"
  let ?dst = "(b, d + k + 1)"
  let ?src = "(b, d + k)"
  have ps: "ptr_sub (b, d + Suc k + 1) 1 = Some ?dst" by (simp add: ptr_sub_def)
  have pa: "ptr_add (b, d) k = ?src" by (simp add: ptr_add_def)
  from Suc.prems(1) obtain u1 w1 where
    a: "?asg ?dst ?src w = Normal u1 w1"
    and r: "assign_backward ?asg (b, d) k ?dst w1 = Normal u w'"
    unfolding assign_backward.simps ps option.case pa by (auto simp: bind_eq_Normal)
  have a': "(if ma then move_assign_at T ?dst ?src w else copy_assign_at T ?dst ?src w) = Normal u1 w1"
    using a by (cases ma) simp_all
  note A = assign_at_Normal[OF a']
  have ne: "?dst \<noteq> ?src" by simp
  note ih = Suc.IH[OF r Suc.prems(2)]
  consider (range) "fst z = b" "d < snd z" "snd z \<le> d + k"
    | (top) "z = ?dst"
    | (other) "\<not> (fst z = b \<and> d < snd z \<and> snd z \<le> d + Suc k)"
    by (cases z) force
  then show ?case
  proof cases
    case range
    have "slot w' z = slot w1 (b, snd z - 1)" using ih range by simp
    also have "\<dots> = slot w (b, snd z - 1)"
      using range by (intro A(3)) auto
    finally show ?thesis using range by simp
  next
    case top
    have "slot w' z = slot w1 z" using ih top by simp
    also have "\<dots> = slot w ?src" unfolding top by (rule A(4)[OF ne])
    finally show ?thesis using top by simp
  next
    case other
    have nd: "z \<noteq> ?dst" using other by auto
    have ns: "z \<noteq> ?src" using other Suc.prems(2) by (cases "k = 0") auto
    have "slot w' z = slot w1 z" using ih other by auto
    also have "\<dots> = slot w z" by (rule A(3)[OF nd ns])
    finally show ?thesis using other by auto
  qed
qed

lemma backward_alt:
  "(if ma then move_backward T first n d_last w else copy_backward T first n d_last w) =
     assign_backward (\<lambda>p q. if ma then move_assign_at T p q else copy_assign_at T p q) first n d_last w"
  by (cases ma) (simp_all add: move_backward_def copy_backward_def)

text \<open>A \<^verbatim>\<open>T&&\<close> argument whose object is live after an allocation referred to that object
  before it.\<close>

lemma args_before_ctor:
  assumes a: "RawMemory_ctor T n w = Normal nd w1"
  shows "constructed T args w1 = Some y \<Longrightarrow> constructed T args w = Some y"
proof (cases args)
  case (MoveOf s)
  assume c: "constructed T args w1 = Some y"
  then obtain x where x: "slot w1 s = Some (Some x)" using MoveOf by (auto split: option.splits)
  have "slot w1 s = slot w s"
    using RawMemory_ctor_Normal(4)[OF a, of s] x by (auto split: if_splits)
  then show ?thesis using c MoveOf by simp
qed auto

text \<open>The element operations of the shifting branch, in order, and the slots of the vector
  after it: those before the position are untouched, the slot at the position holds the new
  value, and every slot behind it, up to the one behind the old last element, holds what
  its left neighbour held.\<close>

lemma emplace_shift_effect:
  assumes r: "emplace_shift T v pos cursor rest args w = Normal u w'"
    and fr: "buffer_m (data_m v) \<noteq> Some (length (heap w))" and pos: "fst pos = buffer_m (data_m v)"
  shows "trace w' = trace w @ [ctor_event args] @
           (if is_nothrow_move_assignable T \<or> \<not> is_copy_assignable T
            then MoveCtor # replicate (rest - 1) MoveAssign @ [MoveAssign]
            else CopyCtor # replicate (rest - 1) CopyAssign @ [CopyAssign]) @ [Dtor]"
    and "\<exists>x. constructed T args w = Some x \<and>
             slot w' (ptr_add (GetAddress (data_m v)) cursor) = Some (Some x)"
    and "snd pos = cursor \<Longrightarrow> cursor < size_m v \<Longrightarrow> rest = size_m v - cursor \<Longrightarrow> outside args v \<Longrightarrow>
           j \<noteq> cursor \<Longrightarrow>
           slot w' (buffer_m (data_m v), j) =
             (if cursor < j \<and> j \<le> size_m v then slot w (buffer_m (data_m v), j - 1)
              else slot w (buffer_m (data_m v), j))"
    and "get_block w' (length (heap w)) = None \<and> free_slots w' = free_slots w"
proof -
  let ?ma = "is_nothrow_move_assignable T \<or> \<not> is_copy_assignable T"
  let ?na = "length (heap w)"
  let ?b = "buffer_m (data_m v)"
  let ?n = "size_m v"
  let ?dst = "ptr_add (GetAddress (data_m v)) cursor"
  from emplace_shift_Normal[OF r] obtain nv w1 u2 w2 lst u3 w3 u4 w4 u5 w5 u6 w6 where
    a: "RawMemory_ctor T 1 w = Normal nv w1"
    and c: "construct_at T (GetAddress nv) args w1 = Normal u2 w2"
    and l: "ptr_sub (Vector_end v) 1 = Some lst"
    and s1: "(if ?ma then uninitialized_move_n T lst 1 (Vector_end v) w2
       else uninitialized_copy_n T lst 1 (Vector_end v) w2) = Normal u3 w3"
    and s2: "(if ?ma then move_backward T pos (rest - 1) (Vector_end v) w3
       else copy_backward T pos (rest - 1) (Vector_end v) w3) = Normal u4 w4"
    and s3: "(if ?ma then move_assign_at T ?dst (GetAddress nv) w4
       else copy_assign_at T ?dst (GetAddress nv) w4) = Normal u5 w5"
    and dn: "destroy_n (GetAddress nv) 1 w5 = Normal u6 w6"
    and de: "RawMemory_dtor nv w6 = Normal u w'"
    by (elim exE conjE)
  have nv: "nv = \<lparr>buffer_m = Some ?na, capacity_m = 1\<rparr>"
    using RawMemory_ctor_Normal(1)[OF a] by simp
  have h: "GetAddress nv = (Some ?na, 0)" by (simp add: nv GetAddress_def)
  have ve: "Vector_end v = (?b, ?n)" by (simp add: Vector_end_def ptr_add_def GetAddress_def)
  have n0: "0 < ?n" and lst: "lst = (?b, ?n - 1)"
    using l by (auto simp: ptr_sub_def ve split: if_splits)
  have t1: "trace w1 = trace w" by (rule RawMemory_ctor_Normal(3)[OF a])
  note C = construct_at_Normal[OF c]
  have raw: "slot w1 (GetAddress nv) = Some None"
    using RawMemory_ctor_slot(2)[OF a, of 0] C(1) by (simp add: h)
  from C(2) obtain x where x1: "constructed T args w1 = Some x" by blast
  have x: "constructed T args w = Some x" by (rule args_before_ctor[OF a x1])
  have t2: "trace w2 = trace w1 @ [ctor_event args]" by (rule C(3))
  have h2: "slot w2 (GetAddress nv) = Some (Some x)" using C(4)[OF raw] x1 by simp
  note R = relocate_one_Normal[OF s1]
  have t3: "trace w3 = trace w2 @ [if ?ma then MoveCtor else CopyCtor]" by (rule R(1))
  have h3: "slot w3 (GetAddress nv) = slot w2 (GetAddress nv)"
    using fr by (intro R(2)) (auto simp: h ve lst)
  note B = backward_Normal[OF s2]
  have t4: "trace w4 = trace w3 @ replicate (rest - 1) (if ?ma then MoveAssign else CopyAssign)"
    by (rule B(2))
  have h4: "slot w4 (GetAddress nv) = slot w3 (GetAddress nv)"
    using fr by (intro B(3)) (simp_all add: h ve pos)
  note A = assign_at_Normal[OF s3]
  have t5: "trace w5 = trace w4 @ [if ?ma then MoveAssign else CopyAssign]" by (rule A(2))
  have ne: "?dst \<noteq> GetAddress nv" using fr by (auto simp: nv ptr_add_def GetAddress_def)
  have h5: "slot w5 ?dst = Some (Some x)" using A(4)[OF ne] h2 h3 h4 by simp
  have t6: "trace w6 = trace w5 @ [Dtor]" using destroy_n_Normal[OF dn] by simp
  have d6: "slot w6 q = slot w5 q" if "fst q = ?b" for q
  proof -
    have nr: "\<not> in_range (GetAddress nv) 1 q" using fr that by (simp add: in_range_GetAddress nv)
    have "\<forall>q. slot w6 q = (if in_range (GetAddress nv) 1 q then Some None else slot w5 q)"
      using destroy_n_Normal[OF dn] by blast
    from this[rule_format, of q] show ?thesis using nr by simp
  qed
  have t7: "trace w' = trace w6" by (rule RawMemory_dtor_Normal(2)[OF de])
  have d7: "slot w' q = slot w6 q" if "fst q = ?b" for q
    using RawMemory_dtor_Normal(3)[OF de, of q] fr that by (simp add: nv)
  have fd: "fst ?dst = ?b" by simp
  show "get_block w' ?na = None \<and> free_slots w' = free_slots w"
  proof -
    from a obtain b0 where al: "Allocate T 1 w = Normal b0 w1"
      by (auto simp: RawMemory_ctor_def bind_eq_Normal)
    note L = Allocate_Normal[OF al]
    have b1: "get_block w1 ?na = Some (replicate (alloc_slots T 1) None)" using L(4)[of ?na] by simp
    have "same_blocks w1 w2" by (rule construct_at_blocks[OF disjI1, OF c])
    moreover have "same_blocks w2 w3" by (rule relocate_blocks[OF disjI1, OF s1])
    moreover have "same_blocks w3 w4" by (rule B(1))
    moreover have "same_blocks w4 w5" by (rule A(1))
    moreover have "same_blocks w5 w6" by (rule destroy_n_blocks[OF dn])
    ultimately have sb: "same_blocks w1 w6" by (blast intro: same_blocks_trans)
    from same_blocks_D[OF sb b1] obtain blk where
      blk: "get_block w6 ?na = Some blk" "length blk = alloc_slots T 1" by auto
    have f6: "free_slots w6 = free_slots w - alloc_slots T 1"
      using same_blocks_free[OF sb] L(6) by simp
    have de': "Deallocate (Some ?na) w6 = Normal u w'" using de by (simp add: RawMemory_dtor_def nv)
    have "get_block w' ?na = None" using Deallocate_Normal(3)[OF de', of ?na] by simp
    moreover have "free_slots w' = free_slots w6 + length blk"
      using de' blk(1) by (auto simp: Deallocate_def)
    ultimately show ?thesis using f6 blk(2) L(5) by simp
  qed
  show "trace w' = trace w @ [ctor_event args] @
           (if ?ma then MoveCtor # replicate (rest - 1) MoveAssign @ [MoveAssign]
            else CopyCtor # replicate (rest - 1) CopyAssign @ [CopyAssign]) @ [Dtor]"
    by (simp add: t1 t2 t3 t4 t5 t6 t7)
  show "\<exists>x. constructed T args w = Some x \<and> slot w' ?dst = Some (Some x)"
    using x h5 d6[OF fd] d7[OF fd] by simp
  show "slot w' (?b, j) = (if cursor < j \<and> j \<le> ?n then slot w (?b, j - 1) else slot w (?b, j))"
    if sp: "snd pos = cursor" and lt: "cursor < ?n" and rest: "rest = ?n - cursor"
      and ap: "outside args v" and jc: "j \<noteq> cursor"
  proof -
    have pe: "pos = (?b, cursor)" using pos sp by (cases pos) simp
    have e1: "slot w1 (?b, i) = slot w (?b, i)" for i
      using RawMemory_ctor_Normal(4)[OF a, of "(?b, i)"] fr by simp
    have e2: "slot w2 (?b, i) = slot w1 (?b, i)" for i
    proof (rule C(5))
      show "(?b, i) \<noteq> GetAddress nv" using fr by (auto simp: h)
      show "args \<noteq> MoveOf (?b, i)" by (rule outsideD[OF ap]) simp
    qed
    have e3: "slot w3 (?b, i) = (if i = ?n then slot w2 (?b, ?n - 1) else slot w2 (?b, i))"
      if "i \<noteq> ?n - 1" for i
    proof (cases "i = ?n")
      case True
      have "(?b, ?n) \<noteq> (?b, ?n - 1)" using n0 by simp
      then have "slot w3 (Vector_end v) = slot w2 lst" unfolding ve lst by (intro R(3)[unfolded ve lst])
      then show ?thesis using True by (simp add: ve lst)
    next
      case False
      have "slot w3 (?b, i) = slot w2 (?b, i)"
        using False that by (intro R(2)) (simp_all add: ve lst)
      then show ?thesis using False by simp
    qed
    have k: "cursor + (rest - 1) + 1 = ?n" using lt rest by simp
    have s2': "assign_backward (\<lambda>p q. if ?ma then move_assign_at T p q else copy_assign_at T p q)
                 (?b, cursor) (rest - 1) (?b, cursor + (rest - 1) + 1) w3 = Normal u4 w4"
      using s2 unfolding backward_alt pe ve k .
    have jn: "(?b, j) \<noteq> (?b, cursor)" using jc by simp
    have e4: "slot w4 (?b, j) = (if cursor < j \<and> j \<le> ?n - 1 then slot w3 (?b, j - 1) else slot w3 (?b, j))"
      using shift_backward[OF s2' jn] lt rest by (auto simp: k)
    have e5: "slot w5 (?b, j) = slot w4 (?b, j)"
      using fr jc by (intro A(3)) (auto simp: nv ptr_add_def GetAddress_def)
    have "slot w' (?b, j) = slot w4 (?b, j)" using d7[of "(?b, j)"] d6[of "(?b, j)"] e5 by simp
    also have "\<dots> = (if cursor < j \<and> j \<le> ?n then slot w2 (?b, j - 1) else slot w2 (?b, j))"
    proof -
      consider (mid) "cursor < j" "j \<le> ?n - 1" | (top) "j = ?n" | (low) "j < cursor" | (high) "?n < j"
        using jc by linarith
      then show ?thesis
      proof cases
        case mid
        then have "j - 1 \<noteq> ?n - 1" "j - 1 \<noteq> ?n" "j \<le> ?n" by auto
        then show ?thesis using mid e4 e3[of "j - 1"] by simp
      next
        case top
        have "\<not> ?n \<le> ?n - 1" "?n \<noteq> ?n - 1" using n0 by auto
        then show ?thesis using top e4 e3[of j] lt by simp
      next
        case low
        then have "j \<noteq> ?n - 1" "j \<noteq> ?n" "\<not> cursor < j" using lt by auto
        then show ?thesis using e4 e3[of j] by simp
      next
        case high
        then have "j \<noteq> ?n - 1" "j \<noteq> ?n" "\<not> j \<le> ?n - 1" "\<not> j \<le> ?n" by auto
        then show ?thesis using e4 e3[of j] by simp
      qed
    qed
    finally show ?thesis by (simp add: e2 e1)
  qed
qed

lemma insert_nth_eq:
  assumes "length ys = Suc (length xs)" and "d \<le> length xs"
    and "\<And>i. i < d \<Longrightarrow> ys ! i = xs ! i" and "ys ! d = a"
    and "\<And>i. d < i \<Longrightarrow> i \<le> length xs \<Longrightarrow> ys ! i = xs ! (i - 1)"
  shows "ys = take d xs @ [a] @ drop d xs"
proof (rule nth_equalityI)
  show "length ys = length (take d xs @ [a] @ drop d xs)" using assms(1,2) by simp
next
  fix i assume i: "i < length ys"
  consider "i < d" | "i = d" | "d < i" by linarith
  then show "ys ! i = (take d xs @ [a] @ drop d xs) ! i"
  proof cases
    case 1
    then show ?thesis using assms(2,3) by (simp add: nth_append)
  next
    case 2
    then show ?thesis using assms(2,4) by (simp add: nth_append)
  next
    case 3
    then have "i \<le> length xs" using i assms(1) by simp
    moreover have "d + (i - Suc d) = i - 1" using 3 by simp
    ultimately show ?thesis using 3 assms(2) assms(5)[of i] by (simp add: nth_append nth_Cons')
  qed
qed

lemma contents_nth:
  assumes "get_obj w this = Some v" and "i < size_m v"
  shows "contents w this ! i = elem w this i" and "length (contents w this) = size_m v"
  using assms by (simp_all add: contents_def)

text \<open>
  C7.  An \<^verbatim>\<open>Emplace\<close> or \<^verbatim>\<open>Insert\<close> before the end of a vector that is not full (so
  without growth), when it returns, has performed these element operations, in this order:
  the construction of the new value (in a holder of one slot, allocated and freed by the
  call); the construction of the last element in the slot behind it; one assignment to
  each slot from the position on, the last of them from the holder; the destruction of the
  value in the holder; the holder is a block of its own, which the call has released.
  The construction of the last element and the assignments are move
  operations exactly when the move assignment of \<^verbatim>\<open>T\<close> is declared non-throwing or
  \<^verbatim>\<open>T\<close> is not copy-assignable, and copy operations otherwise.  When the new value is not
  moved out of an element of the vector itself, the elements afterwards are those before
  the position, unchanged, then the new value, then the elements from the position on, each
  one slot to the right, the old last element in the slot that was one past the end.
\<close>

theorem shift_policy:
  assumes r: "Emplace T this pos args w = Normal p w' \<or>
              (\<exists>x. args = CopyOf x \<and> Insert_copy T this pos x w = Normal p w') \<or>
              (\<exists>src. args = MoveOf src \<and> Insert_move T this pos src w = Normal p w')"
    and g: "get_obj w this = Some v" and inv: "vector_inv w v"
    and be: "snd pos < Size v" and ng: "Size v \<noteq> Capacity v"
  shows "trace w' = trace w @ [ctor_event args] @
           (if is_nothrow_move_assignable T \<or> \<not> is_copy_assignable T
            then MoveCtor # replicate (Size v - snd pos) MoveAssign
            else CopyCtor # replicate (Size v - snd pos) CopyAssign) @ [Dtor] \<and>
         get_block w' (length (heap w)) = None \<and> free_slots w' = free_slots w \<and>
         (outside args v \<longrightarrow>
           (\<exists>x. constructed T args w = Some x \<and>
                contents w' this =
                  take (snd pos) (contents w this) @ [Some x] @ drop (snd pos) (contents w this)) \<and>
           (\<forall>i. snd pos \<le> i \<and> i < Size v \<longrightarrow> elem w' this (i + 1) = elem w this i) \<and>
           elem w' this (Size v) = elem w this (Size v - 1))"
proof -
  let ?rest = "size_m v - snd pos"
  let ?b = "buffer_m (data_m v)"
  let ?d = "snd pos"
  let ?v' = "v\<lparr>size_m := size_m v + 1\<rparr>"
  from r have e: "Emplace T this pos args w = Normal p w'"
    by (auto simp: Insert_copy_def Insert_move_def)
  have fr: "?b \<noteq> Some (length (heap w))" by (rule vector_inv_fresh[OF inv])
  have sz: "size_m v \<le> capacity_m (data_m v)" using inv by (simp add: vector_inv_def)
  have lt: "?d < size_m v" using be by (simp add: Size_def)
  have cap: "size_m v < capacity_m (data_m v)" using sz ng by (simp add: Size_def Capacity_def)
  have pos: "fst pos = ?b" using Emplace_Normal(1)[OF e g] by simp
  from Emplace_Normal(2)[OF e g] be ng obtain u w7 where
    s: "emplace_shift T v pos ?d ?rest args w = Normal u w7"
    and w': "w' = upd_obj this (\<lambda>x. x\<lparr>size_m := size_m x + 1\<rparr>) w7"
    by (auto simp: Size_def)
  note E = emplace_shift_effect[OF s fr pos]
  have rest: "Suc (?rest - 1) = ?rest" using be by (simp add: Size_def)
  have "replicate (?rest - 1) X @ [X] = replicate ?rest X" for X :: event
    using rest by (metis replicate_Suc replicate_append_same)
  then have tr: "trace w' = trace w @ [ctor_event args] @
           (if is_nothrow_move_assignable T \<or> \<not> is_copy_assignable T
            then MoveCtor # replicate (Size v - snd pos) MoveAssign
            else CopyCtor # replicate (Size v - snd pos) CopyAssign) @ [Dtor]"
    using E(1) by (simp add: w' Size_def)
  have g': "get_obj w' this = Some ?v'"
    using Emplace_Normal(3)[OF e g] ng by (simp add: Size_def)
  have el': "elem w' this i = (case slot w' (?b, i) of Some (Some x) \<Rightarrow> Some x | _ \<Rightarrow> None)"
    if "i \<le> size_m v" for i
    using elem_eq[OF g', of i] that cap by simp
  have el: "elem w this i = (case slot w (?b, i) of Some (Some x) \<Rightarrow> Some x | _ \<Rightarrow> None)"
    if "i < size_m v" for i
    by (rule elem_eq[OF g that sz])
  have ct: "outside args v \<longrightarrow>
           (\<exists>x. constructed T args w = Some x \<and>
                contents w' this =
                  take (snd pos) (contents w this) @ [Some x] @ drop (snd pos) (contents w this)) \<and>
           (\<forall>i. snd pos \<le> i \<and> i < Size v \<longrightarrow> elem w' this (i + 1) = elem w this i) \<and>
           elem w' this (Size v) = elem w this (Size v - 1)"
  proof
    assume ap: "outside args v"
    from E(2) obtain x where x: "constructed T args w = Some x"
      and sx: "slot w' (?b, ?d) = Some (Some x)"
      by (auto simp: w' ptr_add_def GetAddress_def)
    have sl: "slot w' (?b, j) = (if ?d < j \<and> j \<le> size_m v then slot w (?b, j - 1) else slot w (?b, j))"
      if "j \<noteq> ?d" for j
      using E(3)[OF refl lt refl ap that] by (simp add: w')
    have low: "elem w' this i = elem w this i" if "i < ?d" for i
      using that lt sl[of i] by (simp add: el' el)
    have mid: "elem w' this ?d = Some x" using lt sx by (simp add: el')
    have high: "elem w' this i = elem w this (i - 1)" if "?d < i" "i \<le> size_m v" for i
      using that sl[of i] by (simp add: el' el)
    have "contents w' this = take ?d (contents w this) @ [Some x] @ drop ?d (contents w this)"
    proof (rule insert_nth_eq)
      show "length (contents w' this) = Suc (length (contents w this))"
        using g g' by (simp add: contents_def)
      show "?d \<le> length (contents w this)" using g lt by (simp add: contents_def)
      show "contents w' this ! i = contents w this ! i" if "i < ?d" for i
        using that lt low[OF that] contents_nth(1)[OF g', of i] contents_nth(1)[OF g, of i] by simp
      show "contents w' this ! ?d = Some x"
        using lt mid contents_nth(1)[OF g', of ?d] by simp
      show "contents w' this ! i = contents w this ! (i - 1)"
        if "?d < i" "i \<le> length (contents w this)" for i
      proof -
        have i: "i \<le> size_m v" using that(2) g by (simp add: contents_def)
        then show ?thesis
          using that(1) high[OF that(1) i] contents_nth(1)[OF g', of i] contents_nth(1)[OF g, of "i - 1"]
          by simp
      qed
    qed
    moreover have "elem w' this (i + 1) = elem w this i" if "?d \<le> i \<and> i < Size v" for i
      using that high[of "i + 1"] by (simp add: Size_def)
    moreover have "elem w' this (Size v) = elem w this (Size v - 1)"
      using lt high[of "size_m v"] by (simp add: Size_def)
    ultimately show "(\<exists>x. constructed T args w = Some x \<and>
                contents w' this =
                  take (snd pos) (contents w this) @ [Some x] @ drop (snd pos) (contents w this)) \<and>
           (\<forall>i. snd pos \<le> i \<and> i < Size v \<longrightarrow> elem w' this (i + 1) = elem w this i) \<and>
           elem w' this (Size v) = elem w this (Size v - 1)"
      using x by blast
  qed
  have hd: "get_block w' (length (heap w)) = None \<and> free_slots w' = free_slots w"
    using E(4) by (simp add: w')
  from tr hd ct show ?thesis by blast
qed

theorem shift_policy_witness:
  "get_obj w_one_obj 0 = Some v_one \<and> vector_inv w_one_obj v_one \<and> Size v_one = 2 \<and> Capacity v_one = 3 \<and>
   contents w_one_obj 0 = [Some 7, Some 8] \<and>
   (\<exists>p w'. Emplace T_nothrow 0 (Some 0, 0) (Args (Some 9)) w_one_obj = Normal p w' \<and>
      trace w' = [ArgsCtor, MoveCtor, MoveAssign, MoveAssign, Dtor] \<and>
      contents w' 0 = [Some 9, Some 7, Some 8]) \<and>
   (\<exists>p w'. Insert_copy T_copy 0 (Some 0, 1) 9 w_one_obj = Normal p w' \<and>
      trace w' = [CopyCtor, CopyCtor, CopyAssign, Dtor] \<and>
      contents w' 0 = [Some 7, Some 9, Some 8]) \<and>
   (\<exists>p w'. Insert_move T_nothrow 0 (Some 0, 1) (Some 1, 0) w_one_obj = Normal p w' \<and>
      trace w' = [MoveCtor, MoveCtor, MoveAssign, Dtor] \<and>
      contents w' 0 = [Some 7, Some 9, Some 8])"
proof -
  have c: "Size v_one = 2" "Capacity v_one = 3" by (simp_all add: Size_def Capacity_def v_one_def)
  have f: "get_obj w_one_obj 0 = Some v_one" "vector_inv w_one_obj v_one"
    "contents w_one_obj 0 = [Some 7, Some 8]" "trace w_one_obj = []"
    by code_simp+
  have k: "constructed T_nothrow (Args (Some 9)) w_one_obj = Some 9"
    "constructed T_copy (CopyOf 9) w_one_obj = Some 9"
    "constructed T_nothrow (MoveOf (Some 1, 0)) w_one_obj = Some 9"
    "constructed T_nothrow (MoveOf (Some (Suc 0), 0)) w_one_obj = Some 9"
    by code_simp+
  have o: "outside (Args (Some 9) :: nat ctor_args) v_one" "outside (CopyOf 9 :: nat ctor_args) v_one"
    "outside (MoveOf (Some 1, 0) :: nat ctor_args) v_one"
    by (simp_all add: Vector_begin_def v_one_def)
  have a: "Emplace T_nothrow 0 (Some 0, 0) (Args (Some 9)) w_one_obj = Normal (Some 0, 0)
      \<lparr>heap = [Some [Some 9, Some 7, Some 8], Some [Some 9], None], free_slots = 10,
       objs = [Some \<lparr>data_m = \<lparr>buffer_m = Some 0, capacity_m = 3\<rparr>, size_m = 3\<rparr>],
       trace = [ArgsCtor, MoveCtor, MoveAssign, MoveAssign, Dtor]\<rparr>" (is "_ = Normal ?p1 ?w1")
    by code_simp
  have b: "Insert_copy T_copy 0 (Some 0, 1) 9 w_one_obj = Normal (Some 0, 1)
      \<lparr>heap = [Some [Some 7, Some 9, Some 8], Some [Some 9], None], free_slots = 10,
       objs = [Some \<lparr>data_m = \<lparr>buffer_m = Some 0, capacity_m = 3\<rparr>, size_m = 3\<rparr>],
       trace = [CopyCtor, CopyCtor, CopyAssign, Dtor]\<rparr>" (is "_ = Normal ?p2 ?w2")
    by code_simp
  have m: "Insert_move T_nothrow 0 (Some 0, 1) (Some 1, 0) w_one_obj = Normal (Some 0, 1)
      \<lparr>heap = [Some [Some 7, Some 9, Some 8], Some [Some 0], None], free_slots = 10,
       objs = [Some \<lparr>data_m = \<lparr>buffer_m = Some 0, capacity_m = 3\<rparr>, size_m = 3\<rparr>],
       trace = [MoveCtor, MoveCtor, MoveAssign, Dtor]\<rparr>" (is "_ = Normal ?p3 ?w3")
    by code_simp
  have ma: "is_nothrow_move_assignable T_nothrow" "\<not> is_nothrow_move_assignable T_copy"
    "is_copy_assignable T_copy"
    by (simp_all add: T_nothrow_def T_copy_def)
  have e1: "trace ?w1 = [ArgsCtor, MoveCtor, MoveAssign, MoveAssign, Dtor] \<and>
      contents ?w1 0 = [Some 9, Some 7, Some 8]"
    using shift_policy[OF disjI1, OF a f(1) f(2)] o(1)
    by (simp add: c f(3,4) k ma numeral_2_eq_2 del: constructed.simps)
  have b': "\<exists>x. CopyOf 9 = CopyOf x \<and> Insert_copy T_copy 0 (Some 0, 1) x w_one_obj = Normal ?p2 ?w2"
    using b by blast
  have e2: "trace ?w2 = [CopyCtor, CopyCtor, CopyAssign, Dtor] \<and>
      contents ?w2 0 = [Some 7, Some 9, Some 8]"
    using shift_policy[OF disjI2, OF disjI1, OF b' f(1) f(2)] o(2)
    by (simp add: c f(3,4) k ma del: constructed.simps)
  have m': "\<exists>src. (MoveOf (Some 1, 0) :: nat ctor_args) = MoveOf src \<and>
      Insert_move T_nothrow 0 (Some 0, 1) src w_one_obj = Normal ?p3 ?w3"
    using m by blast
  have e3: "trace ?w3 = [MoveCtor, MoveCtor, MoveAssign, Dtor] \<and>
      contents ?w3 0 = [Some 7, Some 9, Some 8]"
    using shift_policy[OF disjI2, OF disjI2, OF m' f(1) f(2)] o(3)
    by (simp add: c f(3,4) k ma del: constructed.simps)
  show ?thesis using a b m e1 e2 e3 c f by simp
qed

text \<open>The type \<open>T_mixed\<close> has a move constructor declared non-throwing, so that growth
  relocates its elements by move; its move assignment is not declared non-throwing and it
  is copy-assignable.  An \<^verbatim>\<open>Emplace\<close> at the front of the vector \<open>7, 8\<close> of capacity
  three shifts by copy operations.\<close>

theorem shift_policy_not_by_construction_traits:
  "(is_nothrow_move_constructible T_mixed \<or> \<not> is_copy_constructible T_mixed) \<and>
   get_obj w_one 0 = Some v_one \<and> vector_inv w_one v_one \<and> Size v_one < Capacity v_one \<and>
   Emplace T_mixed 0 (Vector_begin v_one) (Args (Some 9)) w_one = Normal (Some 0, 0)
      \<lparr>heap = [Some [Some 9, Some 7, Some 8], None], free_slots = 10,
       objs = [Some \<lparr>data_m = \<lparr>buffer_m = Some 0, capacity_m = 3\<rparr>, size_m = 3\<rparr>],
       trace = [ArgsCtor, CopyCtor, CopyAssign, CopyAssign, Dtor]\<rparr>"
proof -
  have "is_nothrow_move_constructible T_mixed" by (simp add: T_mixed_def)
  moreover have "Size v_one < Capacity v_one" by (simp add: Size_def Capacity_def v_one_def)
  moreover have "Emplace T_mixed 0 (Vector_begin v_one) (Args (Some 9)) w_one = Normal (Some 0, 0)
      \<lparr>heap = [Some [Some 9, Some 7, Some 8], None], free_slots = 10,
       objs = [Some \<lparr>data_m = \<lparr>buffer_m = Some 0, capacity_m = 3\<rparr>, size_m = 3\<rparr>],
       trace = [ArgsCtor, CopyCtor, CopyAssign, CopyAssign, Dtor]\<rparr>"
    by code_simp
  ultimately show ?thesis using get_obj_w_one vector_inv_w_one by simp
qed

section \<open>The iterator returned by an insertion\<close>

text \<open>After the construction into a new block and the relocations, which do not reach
  slot \<open>c\<close> of the new block, the old block is destroyed and freed.\<close>

lemma new_block_slot:
  assumes a: "RawMemory_ctor T nc w = Normal nd w1"
    and c: "construct_at T (ptr_add (GetAddress nd) c) args w1 = Normal u2 w2"
    and fr: "buffer_m (data_m v) \<noteq> Some (length (heap w))"
    and keep: "slot w4 (ptr_add (GetAddress nd) c) = slot w2 (ptr_add (GetAddress nd) c)"
    and dn: "destroy_n (GetAddress (data_m v)) (size_m v) (upd_obj this f w4) = Normal u5 w5"
    and de: "RawMemory_dtor (data_m v) w5 = Normal u w'"
  shows "\<exists>x. constructed T args w = Some x \<and> nc \<noteq> 0 \<and>
             slot w' (Some (length (heap w)), c) = Some (Some x)"
proof -
  let ?q = "ptr_add (GetAddress nd) c"
  note C = construct_at_Normal[OF c]
  have v1: "slot w1 ?q \<noteq> None" by (rule C(1))
  have nd: "nd = \<lparr>buffer_m = (if nc = 0 then None else Some (length (heap w))), capacity_m = nc\<rparr>"
    by (rule RawMemory_ctor_Normal(1)[OF a])
  have "nc \<noteq> 0"
  proof
    assume "nc = 0"
    then have "fst ?q = None" by (simp add: nd)
    then have "slot w1 ?q = None" by (simp add: slot_def)
    then show False using v1 by simp
  qed
  then have q: "?q = (Some (length (heap w)), c)" by (simp add: nd ptr_add_def GetAddress_def)
  have raw: "slot w1 ?q = Some None"
    using RawMemory_ctor_slot(2)[OF a, of c] v1 by (simp add: q)
  from C(2) obtain x where x1: "constructed T args w1 = Some x" by blast
  have x: "constructed T args w = Some x" by (rule args_before_ctor[OF a x1])
  have h2: "slot w2 ?q = Some (Some x)" using C(4)[OF raw] x1 by simp
  have nr: "\<not> in_range (GetAddress (data_m v)) (size_m v) ?q" using fr by (simp add: in_range_GetAddress q)
  have "\<forall>z. slot w5 z = (if in_range (GetAddress (data_m v)) (size_m v) z then Some None
                           else slot (upd_obj this f w4) z)"
    using destroy_n_Normal[OF dn] by blast
  from this[rule_format, of ?q] have h5: "slot w5 ?q = slot w4 ?q" using nr by simp
  have h': "slot w' ?q = slot w5 ?q" using RawMemory_dtor_Normal(3)[OF de, of ?q] fr by (simp add: q)
  show ?thesis using x \<open>nc \<noteq> 0\<close> h2 h5 h' keep by (simp add: q)
qed

lemma append_new_slot:
  assumes r: "append_new T this v args w = Normal u w'"
    and inv: "vector_inv w v"
  shows "\<exists>x. constructed T args w = Some x \<and>
             slot w' (ptr_add (GetAddress (if size_m v = Capacity v
                then \<lparr>buffer_m = Some (length (heap w)), capacity_m = (if size_m v = 0 then 1 else size_m v * 2)\<rparr>
                else data_m v)) (size_m v)) = Some (Some x)"
proof (cases "size_m v = Capacity v")
  case False
  from r obtain q where q: "RawMemory_plus (data_m v) (size_m v) = Some q"
    and c: "construct_at T q args w = Normal u w'"
    unfolding append_new_stay[OF False] by (auto split: option.splits)
  have qe: "q = ptr_add (GetAddress (data_m v)) (size_m v)"
    using q by (auto simp: RawMemory_plus_def split: if_splits)
  have lt: "size_m v < capacity_m (data_m v)"
    using False inv by (simp add: vector_inv_def Capacity_def)
  then obtain a where a: "buffer_m (data_m v) = Some a"
    using inv by (cases "buffer_m (data_m v)") (auto simp: vector_inv_def)
  have raw: "slot w q = Some None"
    using vector_inv_block(4)[OF inv a, of "size_m v"] lt by (simp add: qe ptr_add_def GetAddress_def a)
  note C = construct_at_Normal[OF c]
  from C(2) C(4)[OF raw] show ?thesis using False by (auto simp: qe)
next
  case True
  have fr: "buffer_m (data_m v) \<noteq> Some (length (heap w))" by (rule vector_inv_fresh[OF inv])
  let ?mv = "is_nothrow_move_constructible T \<or> \<not> is_copy_constructible T"
  from append_new_grow_Normal[OF r True] obtain nd w1 u2 w2 u3 w3 u4 w4 where
    a: "RawMemory_ctor T (if size_m v = 0 then 1 else size_m v * 2) w = Normal nd w1"
    and c: "construct_at T (ptr_add (GetAddress nd) (size_m v)) args w1 = Normal u2 w2"
    and rel: "(if ?mv then uninitialized_move_n T (GetAddress (data_m v)) (size_m v) (GetAddress nd) w2
       else uninitialized_copy_n T (GetAddress (data_m v)) (size_m v) (GetAddress nd) w2) = Normal u3 w3"
    and dn: "destroy_n (GetAddress (data_m v)) (size_m v) (upd_obj this (\<lambda>x. x\<lparr>data_m := nd\<rparr>) w3) = Normal u4 w4"
    and de: "RawMemory_dtor (data_m v) w4 = Normal u w'"
    by (elim exE conjE)
  have nd: "nd = \<lparr>buffer_m = Some (length (heap w)), capacity_m = (if size_m v = 0 then 1 else size_m v * 2)\<rparr>"
    using RawMemory_ctor_Normal(1)[OF a] by simp
  have dj: "fst (GetAddress (data_m v)) \<noteq> fst (GetAddress nd)" using fr by (simp add: nd)
  have keep: "slot w3 (ptr_add (GetAddress nd) (size_m v)) = slot w2 (ptr_add (GetAddress nd) (size_m v))"
    using relocate_Normal(5)[OF rel dj, of "ptr_add (GetAddress nd) (size_m v)"] fr
    by (simp add: in_range_GetAddress nd)
  from new_block_slot[OF a c fr keep dn de] show ?thesis using True by (auto simp: ptr_add_def GetAddress_def)
qed

lemma emplace_grow_slot:
  assumes r: "emplace_grow T this v pos cursor rest args w = Normal u w'"
    and fr: "buffer_m (data_m v) \<noteq> Some (length (heap w))" and pos: "fst pos = buffer_m (data_m v)"
  shows "\<exists>x. constructed T args w = Some x \<and>
             slot w' (Some (length (heap w)), cursor) = Some (Some x)"
proof -
  let ?mv = "is_nothrow_move_constructible T \<or> \<not> is_copy_constructible T"
  let ?nc = "if size_m v = 0 then 1 else size_m v * 2"
  from emplace_grow_Normal[OF r] obtain nd w1 u2 w2 u3 w3 u4 w4 u5 w5 where
    a: "RawMemory_ctor T ?nc w = Normal nd w1"
    and c: "construct_at T (ptr_add (GetAddress nd) cursor) args w1 = Normal u2 w2"
    and r1: "(if ?mv then uninitialized_move_n T (Vector_begin v) cursor (GetAddress nd) w2
       else uninitialized_copy_n T (Vector_begin v) cursor (GetAddress nd) w2) = Normal u3 w3"
    and r2: "(if ?mv then uninitialized_move_n T pos rest (ptr_add (GetAddress nd) (cursor + 1)) w3
       else uninitialized_copy_n T pos rest (ptr_add (GetAddress nd) (cursor + 1)) w3) = Normal u4 w4"
    and dn: "destroy_n (GetAddress (data_m v)) (size_m v) (upd_obj this (\<lambda>x. x\<lparr>data_m := nd\<rparr>) w4) = Normal u5 w5"
    and de: "RawMemory_dtor (data_m v) w5 = Normal u w'"
    by (elim exE conjE)
  let ?q = "ptr_add (GetAddress nd) cursor"
  have nd: "nd = \<lparr>buffer_m = Some (length (heap w)), capacity_m = ?nc\<rparr>"
    using RawMemory_ctor_Normal(1)[OF a] by simp
  have dj1: "fst (Vector_begin v) \<noteq> fst (GetAddress nd)" using fr by (simp add: nd Vector_begin_def)
  have dj2: "fst pos \<noteq> fst (ptr_add (GetAddress nd) (cursor + 1))" using fr pos by (simp add: nd)
  have k1: "slot w3 ?q = slot w2 ?q"
    using relocate_Normal(5)[OF r1 dj1, of ?q] fr
    by (simp add: in_range_GetAddress nd Vector_begin_def)
  have k2: "slot w4 ?q = slot w3 ?q"
    using relocate_Normal(5)[OF r2 dj2, of ?q] fr pos
    by (simp add: in_range_def nd)
  have keep: "slot w4 ?q = slot w2 ?q" using k1 k2 by simp
  from new_block_slot[OF a c fr keep dn de] show ?thesis by blast
qed


text \<open>
  C10.  Whenever \<^verbatim>\<open>Emplace(pos, args)\<close>, \<^verbatim>\<open>Insert(pos, value)\<close> on a vector that satisfies
  its invariant returns, \<open>pos\<close> was a position of the vector, at distance \<open>d \<le> Size\<close>
  from \<^verbatim>\<open>begin()\<close>, and the iterator returned is \<^verbatim>\<open>begin() + d\<close> of the vector after the
  call, which is the slot of its element \<open>d\<close> and holds the newly constructed value.  This
  covers the three branches: \<open>pos = end()\<close> (\<^verbatim>\<open>EmplaceBack\<close>), growth into a new block, and
  shifting in place.
\<close>

theorem Emplace_returns_new_element:
  assumes r: "Emplace T this pos args w = Normal p w' \<or>
              (\<exists>x. args = CopyOf x \<and> Insert_copy T this pos x w = Normal p w') \<or>
              (\<exists>src. args = MoveOf src \<and> Insert_move T this pos src w = Normal p w')"
    and g: "get_obj w this = Some v" and inv: "vector_inv w v"
  shows "\<exists>d v' x. distance (Vector_begin v) pos = Some d \<and> d \<le> Size v \<and>
           get_obj w' this = Some v' \<and> Size v' = Size v + 1 \<and>
           p = ptr_add (Vector_begin v') d \<and> Vector_index v' d = Some p \<and>
           constructed T args w = Some x \<and> slot w' p = Some (Some x) \<and> elem w' this d = Some x"
proof -
  let ?nd = "if size_m v = Capacity v
            then \<lparr>buffer_m = Some (length (heap w)), capacity_m = (if size_m v = 0 then 1 else size_m v * 2)\<rparr>
            else data_m v"
  let ?v' = "v\<lparr>data_m := ?nd, size_m := size_m v + 1\<rparr>"
  let ?d = "snd pos"
  from r have e: "Emplace T this pos args w = Normal p w'"
    by (auto simp: Insert_copy_def Insert_move_def)
  have fr: "buffer_m (data_m v) \<noteq> Some (length (heap w))" by (rule vector_inv_fresh[OF inv])
  have sz: "size_m v \<le> capacity_m (data_m v)" using inv by (simp add: vector_inv_def)
  note pos = Emplace_Normal(1)[OF e g]
  have d: "distance (Vector_begin v) pos = Some ?d" "?d \<le> Size v"
    using pos by (simp_all add: distance_def Vector_begin_def Size_def)
  have o: "get_obj w' this = Some ?v'" by (rule Emplace_Normal(3)[OF e g])
  have p: "p = ptr_add (GetAddress ?nd) ?d"
    using Emplace_Normal(4)[OF e g] o by (auto simp: Vector_begin_def)
  have "\<exists>x. constructed T args w = Some x \<and> slot w' (ptr_add (GetAddress ?nd) ?d) = Some (Some x)"
    using Emplace_Normal(2)[OF e g]
  proof (elim disjE conjE exE, goal_cases)
    case (1 q)
    from EmplaceBack_Normal(1)[OF 1(2) g] obtain u5 w5 where
      a: "append_new T this v args w = Normal u5 w5"
      and w': "w' = upd_obj this (\<lambda>x. x\<lparr>size_m := size_m x + 1\<rparr>) w5" by blast
    from append_new_slot[OF a inv] show ?case by (simp add: w' 1(1))
  next
    case (2 u w7)
    from emplace_grow_slot[OF 2(3) fr] pos show ?case
      using 2(2) by (simp add: 2(4) ptr_add_def GetAddress_def)
  next
    case (3 u w7)
    from emplace_shift_effect(2)[OF 3(3) fr] pos show ?case
      using 3(2) by (simp add: 3(4))
  qed
  then obtain x where x: "constructed T args w = Some x" "slot w' p = Some (Some x)"
    unfolding p by blast
  have cap: "?d < capacity_m ?nd" using pos sz by (auto simp: Capacity_def)
  then have vi: "Vector_index ?v' ?d = Some p"
    using pos by (simp add: Vector_index_def RawMemory_index_def p)
  have el: "elem w' this ?d = Some x" by (simp only: elem_def o vi x(2) option.case)
  have "Size ?v' = Size v + 1" by (simp add: Size_def)
  moreover have "p = ptr_add (Vector_begin ?v') ?d" by (simp add: p Vector_begin_def)
  ultimately show ?thesis using d o vi x el by blast
qed

theorem Emplace_returns_new_element_witness:
  "get_obj w_one 0 = Some v_one \<and> vector_inv w_one v_one \<and>
   get_obj w_full_obj 0 = Some v_full \<and> vector_inv w_full_obj v_full \<and>
   (\<exists>w'. Emplace T_copy 0 (Vector_end v_one) (Args (Some 9)) w_one = Normal (Some 0, 2) w' \<and>
      elem w' 0 2 = Some 9) \<and>
   (\<exists>w'. Insert_copy T_copy 0 (Some 0, 1) 9 w_one = Normal (Some 0, 1) w' \<and>
      elem w' 0 1 = Some 9) \<and>
   (\<exists>w'. Insert_move T_nothrow 0 (Some 0, 1) (Some 1, 0) w_full_obj = Normal (Some 2, 1) w' \<and>
      elem w' 0 1 = Some 9)"
proof -
  have a: "Emplace T_copy 0 (Vector_end v_one) (Args (Some 9)) w_one = Normal (Some 0, 2)
      \<lparr>heap = [Some [Some 7, Some 8, Some 9]], free_slots = 10,
       objs = [Some \<lparr>data_m = \<lparr>buffer_m = Some 0, capacity_m = 3\<rparr>, size_m = 3\<rparr>],
       trace = [ArgsCtor]\<rparr>" (is "_ = Normal ?p1 ?w1")
    by code_simp
  have b: "Insert_copy T_copy 0 (Some 0, 1) 9 w_one = Normal (Some 0, 1)
      \<lparr>heap = [Some [Some 7, Some 9, Some 8], None], free_slots = 10,
       objs = [Some \<lparr>data_m = \<lparr>buffer_m = Some 0, capacity_m = 3\<rparr>, size_m = 3\<rparr>],
       trace = [CopyCtor, CopyCtor, CopyAssign, Dtor]\<rparr>" (is "_ = Normal ?p2 ?w2")
    by code_simp
  have c: "Insert_move T_nothrow 0 (Some 0, 1) (Some 1, 0) w_full_obj = Normal (Some 2, 1)
      \<lparr>heap = [None, Some [Some 0], Some [Some 5, Some 9, Some 13, None]], free_slots = 8,
       objs = [Some \<lparr>data_m = \<lparr>buffer_m = Some 2, capacity_m = 4\<rparr>, size_m = 3\<rparr>],
       trace = [MoveCtor, MoveCtor, MoveCtor, Dtor, Dtor]\<rparr>" (is "_ = Normal ?p3 ?w3")
    by code_simp
  note F = w_full_obj_facts
  have d: "distance (Vector_begin v_one) (Vector_end v_one) = Some 2"
    "distance (Vector_begin v_one) (Some 0, 1) = Some 1"
    "distance (Vector_begin v_full) (Some 0, 1) = Some 1"
    by (simp_all add: distance_def Vector_begin_def Vector_end_def GetAddress_def ptr_add_def
        v_one_def v_full_def)
  have k: "constructed T_copy (Args (Some 9)) w_one = Some 9"
    "constructed T_copy (CopyOf 9) w_one = Some 9"
    "constructed T_nothrow (MoveOf (Some 1, 0)) w_full_obj = Some 9"
    by code_simp+
  have e1: "elem ?w1 0 2 = Some 9"
  proof -
    from Emplace_returns_new_element[OF disjI1, OF a get_obj_w_one vector_inv_w_one]
    obtain d' v' x where f: "distance (Vector_begin v_one) (Vector_end v_one) = Some d'"
      "constructed T_copy (Args (Some 9)) w_one = Some x" "elem ?w1 0 d' = Some x" by blast
    from f(1) d have "d' = 2" by simp
    moreover from f(2) have "x = 9" unfolding k by simp
    ultimately show ?thesis using f(3) by simp
  qed
  have e2: "elem ?w2 0 1 = Some 9"
  proof -
    have "\<exists>x. CopyOf 9 = CopyOf x \<and> Insert_copy T_copy 0 (Some 0, 1) x w_one = Normal ?p2 ?w2"
      using b by blast
    from Emplace_returns_new_element[OF disjI2, OF disjI1, OF this get_obj_w_one vector_inv_w_one]
    obtain d' v' x where f: "distance (Vector_begin v_one) (Some 0, 1) = Some d'"
      "constructed T_copy (CopyOf 9) w_one = Some x" "elem ?w2 0 d' = Some x" by blast
    from f(1) d have "d' = 1" by simp
    moreover from f(2) have "x = 9" unfolding k by simp
    ultimately show ?thesis using f(3) by simp
  qed
  have e3: "elem ?w3 0 1 = Some 9"
  proof -
    have "\<exists>src. (MoveOf (Some 1, 0) :: nat ctor_args) = MoveOf src \<and>
        Insert_move T_nothrow 0 (Some 0, 1) src w_full_obj = Normal ?p3 ?w3"
      using c by blast
    from Emplace_returns_new_element[OF disjI2, OF disjI2, OF this F(1) F(2)]
    obtain d' v' x where f: "distance (Vector_begin v_full) (Some 0, 1) = Some d'"
      "constructed T_nothrow (MoveOf (Some 1, 0)) w_full_obj = Some x" "elem ?w3 0 d' = Some x" by blast
    from f(1) d have "d' = 1" by simp
    moreover from f(2) have "x = 9" unfolding k by simp
    ultimately show ?thesis using f(3) by simp
  qed
  show ?thesis
    using a b c e1 e2 e3 get_obj_w_one vector_inv_w_one F(1) F(2) by simp
qed


end
